theory Spec2Isabelle
  imports Main "HOL-Library.Word" "HOL-Library.Multiset"
begin

unbundle bit_operations_syntax

section \<open>libimd.h: constants, sector data record types, track structure\<close>

type_synonym u8 = "8 word"

text \<open>The error codes of libimd.h, with their numeric values.\<close>

datatype imd_error =
    IMD_ERR_SECTOR_NOT_FOUND
  | IMD_ERR_TRACK_NOT_FOUND
  | IMD_ERR_READ_ERROR
  | IMD_ERR_WRITE_ERROR
  | IMD_ERR_SEEK_ERROR
  | IMD_ERR_INVALID_ARG
  | IMD_ERR_BUFFER_TOO_SMALL
  | IMD_ERR_SIZE_MISMATCH
  | IMD_ERR_UNAVAILABLE
  | IMD_ERR_ALLOC

fun imd_err_code :: "imd_error \<Rightarrow> int" where
  "imd_err_code IMD_ERR_SECTOR_NOT_FOUND = -10"
| "imd_err_code IMD_ERR_TRACK_NOT_FOUND = -11"
| "imd_err_code IMD_ERR_READ_ERROR = -12"
| "imd_err_code IMD_ERR_WRITE_ERROR = -13"
| "imd_err_code IMD_ERR_SEEK_ERROR = -14"
| "imd_err_code IMD_ERR_INVALID_ARG = -15"
| "imd_err_code IMD_ERR_BUFFER_TOO_SMALL = -16"
| "imd_err_code IMD_ERR_SIZE_MISMATCH = -17"
| "imd_err_code IMD_ERR_UNAVAILABLE = -18"
| "imd_err_code IMD_ERR_ALLOC = -19"

definition LIBIMD_MAX_SECTORS_PER_TRACK :: nat where
  "LIBIMD_MAX_SECTORS_PER_TRACK = 256"

definition LIBIMD_MAX_SECTOR_SIZE :: nat where
  "LIBIMD_MAX_SECTOR_SIZE = 8192"

definition LIBIMD_FILL_BYTE_DEFAULT :: u8 where
  "LIBIMD_FILL_BYTE_DEFAULT = 0xE5"

definition LIBIMD_COMMENT_EOF_MARKER :: u8 where
  "LIBIMD_COMMENT_EOF_MARKER = 0x1A"

definition LIBIMD_NUM_MODES :: nat where
  "LIBIMD_NUM_MODES = 6"

definition IMD_MODE_MFM_250 :: u8 where
  "IMD_MODE_MFM_250 = 5"

definition LIBIMD_IL_AS_READ :: int where
  "LIBIMD_IL_AS_READ = 0"

definition LIBIMD_IL_BEST_GUESS :: int where
  "LIBIMD_IL_BEST_GUESS = 255"

definition IMD_HFLAG_HEAD_MASK :: u8 where
  "IMD_HFLAG_HEAD_MASK = 0x0F"

definition IMD_HFLAG_CMAP_PRES :: u8 where
  "IMD_HFLAG_CMAP_PRES = 0x80"

definition IMD_HFLAG_HMAP_PRES :: u8 where
  "IMD_HFLAG_HMAP_PRES = 0x40"

definition IMD_HFLAG_MASK :: u8 where
  "IMD_HFLAG_MASK = 0xF0"

definition IMD_SDR_UNAVAILABLE :: u8 where
  "IMD_SDR_UNAVAILABLE = 0x00"

definition IMD_SDR_NORMAL :: u8 where
  "IMD_SDR_NORMAL = 0x01"

definition IMD_SDR_COMPRESSED :: u8 where
  "IMD_SDR_COMPRESSED = 0x02"

definition IMD_SDR_NORMAL_DAM :: u8 where
  "IMD_SDR_NORMAL_DAM = 0x03"

definition IMD_SDR_COMPRESSED_DAM :: u8 where
  "IMD_SDR_COMPRESSED_DAM = 0x04"

definition IMD_SDR_NORMAL_ERR :: u8 where
  "IMD_SDR_NORMAL_ERR = 0x05"

definition IMD_SDR_COMPRESSED_ERR :: u8 where
  "IMD_SDR_COMPRESSED_ERR = 0x06"

definition IMD_SDR_DELETED_ERR :: u8 where
  "IMD_SDR_DELETED_ERR = 0x07"

definition IMD_SDR_COMPRESSED_DEL_ERR :: u8 where
  "IMD_SDR_COMPRESSED_DEL_ERR = 0x08"

text \<open>
  The helper macros. Their argument is a \<open>uint8_t\<close>, which C promotes to \<open>int\<close> before
  the subtraction in \<open>(type - 1) & 0x02\<close>; the model subtracts and masks on \<open>int\<close>
  (two's complement), and the macro's value is tested for being non-zero.
\<close>

definition IMD_SDR_HAS_DATA :: "u8 \<Rightarrow> bool" where
  "IMD_SDR_HAS_DATA type \<longleftrightarrow> type \<ge> 0x01 \<and> type \<le> 0x08"

definition IMD_SDR_IS_COMPRESSED :: "u8 \<Rightarrow> bool" where
  "IMD_SDR_IS_COMPRESSED type \<longleftrightarrow> (type AND 0x01) = 0 \<and> type \<noteq> 0x00"

definition IMD_SDR_HAS_DAM :: "u8 \<Rightarrow> bool" where
  "IMD_SDR_HAS_DAM type \<longleftrightarrow> ((uint type - 1) AND (0x02 :: int)) \<noteq> 0"

definition IMD_SDR_HAS_ERR :: "u8 \<Rightarrow> bool" where
  "IMD_SDR_HAS_ERR type \<longleftrightarrow> ((uint type - 1) AND (0x04 :: int)) \<noteq> 0"

definition IMD_COMPRESSION_AS_READ :: int where
  "IMD_COMPRESSION_AS_READ = 0"

definition IMD_COMPRESSION_FORCE_COMPRESS :: int where
  "IMD_COMPRESSION_FORCE_COMPRESS = 1"

definition IMD_COMPRESSION_FORCE_DECOMPRESS :: int where
  "IMD_COMPRESSION_FORCE_DECOMPRESS = 2"

text \<open>
  \<open>ImdTrackInfo\<close>. The four maps are the fixed arrays of
  \<open>LIBIMD_MAX_SECTORS_PER_TRACK\<close> bytes, as lists; \<open>data\<close> is the heap buffer, \<open>None\<close>
  for a NULL pointer. \<open>sector_size\<close> (\<open>uint32_t\<close>) and \<open>data_size\<close> (\<open>size_t\<close>) are
  natural numbers: the products the code forms from them stay far below \<open>2 ^ 64\<close>.
\<close>

record ImdTrackInfo =
  mode :: u8
  cyl :: u8
  head :: u8
  hflag :: u8
  num_sectors :: u8
  sector_size_code :: u8
  sector_size :: nat
  smap :: "u8 list"
  cmap :: "u8 list"
  hmap :: "u8 list"
  sflag :: "u8 list"
  data :: "u8 list option"
  data_size :: nat
  loaded :: int

record ImdWriteOpts =
  compression_mode :: int
  force_non_bad :: int
  force_non_deleted :: int
  tmode :: "u8 list"
  interleave_factor :: int

definition SECTOR_SIZE_LOOKUP :: "nat list" where
  "SECTOR_SIZE_LOOKUP = [128, 256, 512, 1024, 2048, 4096, 8192]"

definition SECTOR_SIZE_LOOKUP_COUNT :: nat where
  "SECTOR_SIZE_LOOKUP_COUNT = length SECTOR_SIZE_LOOKUP"

text \<open>\<open>memset(track, 0, sizeof(ImdTrackInfo))\<close>.\<close>

definition zero_track :: ImdTrackInfo where
  "zero_track = \<lparr> mode = 0, cyl = 0, head = 0, hflag = 0, num_sectors = 0,
     sector_size_code = 0, sector_size = 0,
     smap = replicate LIBIMD_MAX_SECTORS_PER_TRACK 0,
     cmap = replicate LIBIMD_MAX_SECTORS_PER_TRACK 0,
     hmap = replicate LIBIMD_MAX_SECTORS_PER_TRACK 0,
     sflag = replicate LIBIMD_MAX_SECTORS_PER_TRACK 0,
     data = None, data_size = 0, loaded = 0 \<rparr>"

text \<open>\<open>memcpy(dst, src, n)\<close> and \<open>memset(dst, c, n)\<close> on the first \<open>n\<close> entries of an array.\<close>

definition memcpy_prefix :: "u8 list \<Rightarrow> u8 list \<Rightarrow> nat \<Rightarrow> u8 list" where
  "memcpy_prefix dst src n = take n src @ drop n dst"

definition memset_prefix :: "u8 list \<Rightarrow> u8 \<Rightarrow> nat \<Rightarrow> u8 list" where
  "memset_prefix dst c n = replicate n c @ drop n dst"

text \<open>Sector \<open>i\<close> of a data buffer: the bytes at offsets \<open>i * size .. (i + 1) * size\<close>.\<close>

definition sector_bytes :: "u8 list \<Rightarrow> nat \<Rightarrow> nat \<Rightarrow> u8 list" where
  "sector_bytes d ssize i = take ssize (drop (i * ssize) d)"

definition store_sector :: "u8 list \<Rightarrow> nat \<Rightarrow> nat \<Rightarrow> u8 list \<Rightarrow> u8 list" where
  "store_sector d ssize i bs = take (i * ssize) d @ bs @ drop (i * ssize + length bs) d"

section \<open>libimd.c: track handling\<close>

definition imd_get_sector_size :: "ImdTrackInfo \<Rightarrow> nat" where
  "imd_get_sector_size track =
     (if unat (sector_size_code track) \<ge> SECTOR_SIZE_LOOKUP_COUNT then 0
      else SECTOR_SIZE_LOOKUP ! unat (sector_size_code track))"

text \<open>
  \<open>imd_alloc_track_data\<close>. \<open>malloc\<close> is taken to succeed; the fresh buffer's bytes are
  indeterminate in C and every caller overwrites all of them, the model makes them zero.
\<close>

definition imd_alloc_track_data :: "ImdTrackInfo \<Rightarrow> imd_error + ImdTrackInfo" where
  "imd_alloc_track_data track =
     (if data track \<noteq> None then Inl IMD_ERR_ALLOC
      else let ssize = imd_get_sector_size track in
        if ssize = 0 then Inl IMD_ERR_INVALID_ARG
        else let track1 = track\<lparr>sector_size := ssize\<rparr> in
          if num_sectors track1 = 0
          then Inr (track1\<lparr>data := None, data_size := 0\<rparr>)
          else let total_data_size = unat (num_sectors track1) * ssize in
            Inr (track1\<lparr>data := Some (replicate total_data_size 0),
                        data_size := total_data_size\<rparr>))"

definition imd_free_track_data :: "ImdTrackInfo \<Rightarrow> ImdTrackInfo" where
  "imd_free_track_data track =
     (if data track \<noteq> None then track\<lparr>data := None, data_size := 0, loaded := 0\<rparr>
      else track)"

text \<open>
  The input stream is the list of bytes from the current position to the end of the
  file; a read fault (\<open>ferror\<close>) and a failing \<open>ftell\<close> do not occur on it.
  \<open>read_byte\<close> is \<open>None\<close> at end of file; \<open>read_bytes\<close> is \<open>None\<close> on a short read.
\<close>

definition read_byte :: "u8 list \<Rightarrow> (u8 \<times> u8 list) option" where
  "read_byte s = (case s of [] \<Rightarrow> None | b # rest \<Rightarrow> Some (b, rest))"

definition read_bytes :: "nat \<Rightarrow> u8 list \<Rightarrow> (u8 list \<times> u8 list) option" where
  "read_bytes n s = (if length s < n then None else Some (take n s, drop n s))"

text \<open>
  The sector loop of \<open>imd_load_track\<close>: \<open>k\<close> sectors remain, \<open>flags\<close> and \<open>buf\<close> are
  the sector flags and the data bytes stored so far. Every failure frees the buffer,
  seeks back to the start of the track and returns \<open>IMD_ERR_READ_ERROR\<close>.
\<close>

fun load_sectors :: "nat \<Rightarrow> nat \<Rightarrow> u8 \<Rightarrow> u8 list \<Rightarrow> u8 list \<Rightarrow> u8 list \<Rightarrow>
    imd_error + (u8 list \<times> u8 list \<times> u8 list)" where
  "load_sectors 0 ssize fill_byte flags buf s = Inr (flags, buf, s)"
| "load_sectors (Suc k) ssize fill_byte flags buf s =
     (case read_byte s of
        None \<Rightarrow> Inl IMD_ERR_READ_ERROR
      | Some (sector_type, s1) \<Rightarrow>
          if IMD_SDR_HAS_DATA sector_type then
            (if IMD_SDR_IS_COMPRESSED sector_type then
               (case read_byte s1 of
                  None \<Rightarrow> Inl IMD_ERR_READ_ERROR
                | Some (fill_value, s2) \<Rightarrow>
                    load_sectors k ssize fill_byte (flags @ [sector_type])
                      (buf @ replicate ssize fill_value) s2)
             else if ssize > LIBIMD_MAX_SECTOR_SIZE then Inl IMD_ERR_READ_ERROR
             else
               (case read_bytes ssize s1 of
                  None \<Rightarrow> Inl IMD_ERR_READ_ERROR
                | Some (bs, s2) \<Rightarrow>
                    load_sectors k ssize fill_byte (flags @ [sector_type]) (buf @ bs) s2))
          else if sector_type = IMD_SDR_UNAVAILABLE then
            load_sectors k ssize fill_byte (flags @ [sector_type])
              (buf @ replicate ssize fill_byte) s1
          else Inl IMD_ERR_READ_ERROR)"

text \<open>
  \<open>imd_load_track\<close>. The result is \<open>Inl e\<close> for a negative return value (the stream is
  then back at the start of the track), \<open>Inr (None, s)\<close> for the return value 0 (clean end
  of file) and \<open>Inr (Some track, s')\<close> for the return value 1, with \<open>s'\<close> the stream
  after the track record. \<open>num_sectors\<close> is a \<open>uint8_t\<close>, so the comparison with
  \<open>LIBIMD_MAX_SECTORS_PER_TRACK\<close> is on its value.
\<close>

definition imd_load_track :: "u8 list \<Rightarrow> u8 \<Rightarrow> imd_error + (ImdTrackInfo option \<times> u8 list)" where
  "imd_load_track s fill_byte =
     (case read_byte s of
        None \<Rightarrow> Inr (None, s)
      | Some (mode_b, s1) \<Rightarrow>
     (case read_byte s1 of None \<Rightarrow> Inl IMD_ERR_READ_ERROR | Some (cyl_b, s2) \<Rightarrow>
     (case read_byte s2 of None \<Rightarrow> Inl IMD_ERR_READ_ERROR | Some (head_byte, s3) \<Rightarrow>
     (case read_byte s3 of None \<Rightarrow> Inl IMD_ERR_READ_ERROR | Some (nsec_b, s4) \<Rightarrow>
     (case read_byte s4 of None \<Rightarrow> Inl IMD_ERR_READ_ERROR | Some (ssize_b, s5) \<Rightarrow>
       let track0 = zero_track\<lparr>mode := mode_b, cyl := cyl_b, num_sectors := nsec_b,
                      sector_size_code := ssize_b,
                      head := head_byte AND IMD_HFLAG_HEAD_MASK,
                      hflag := head_byte AND IMD_HFLAG_MASK\<rparr> in
       if unat (mode track0) \<ge> LIBIMD_NUM_MODES \<or> head track0 > 1 \<or>
          unat (sector_size_code track0) \<ge> SECTOR_SIZE_LOOKUP_COUNT
       then Inl IMD_ERR_READ_ERROR
       else let track1 = track0\<lparr>sector_size :=
                           SECTOR_SIZE_LOOKUP ! unat (sector_size_code track0)\<rparr> in
       if sector_size track1 = 0 then Inl IMD_ERR_READ_ERROR
       else if unat (num_sectors track1) > LIBIMD_MAX_SECTORS_PER_TRACK
       then Inl IMD_ERR_READ_ERROR
       else let n = unat (num_sectors track1) in
       (case (if n > 0 then
                (case read_bytes n s5 of
                   None \<Rightarrow> Inl IMD_ERR_READ_ERROR
                 | Some (sm, s6) \<Rightarrow>
                 (case (if hflag track1 AND IMD_HFLAG_CMAP_PRES \<noteq> 0
                        then (case read_bytes n s6 of
                                None \<Rightarrow> Inl IMD_ERR_READ_ERROR
                              | Some (cm, s7) \<Rightarrow> Inr (memcpy_prefix (cmap track1) cm n, s7))
                        else Inr (memset_prefix (cmap track1) (cyl track1) n, s6)) of
                    Inl e \<Rightarrow> Inl e
                  | Inr (cmap', s7) \<Rightarrow>
                 (case (if hflag track1 AND IMD_HFLAG_HMAP_PRES \<noteq> 0
                        then (case read_bytes n s7 of
                                None \<Rightarrow> Inl IMD_ERR_READ_ERROR
                              | Some (hm, s8) \<Rightarrow> Inr (memcpy_prefix (hmap track1) hm n, s8))
                        else Inr (memset_prefix (hmap track1) (head track1) n, s7)) of
                    Inl e \<Rightarrow> Inl e
                  | Inr (hmap', s8) \<Rightarrow>
                      Inr (track1\<lparr>smap := memcpy_prefix (smap track1) sm n,
                                  cmap := cmap', hmap := hmap'\<rparr>, s8))))
              else Inr (track1, s5)) of
          Inl e \<Rightarrow> Inl e
        | Inr (track2, s9) \<Rightarrow>
        (case imd_alloc_track_data track2 of
           Inl e \<Rightarrow> Inl e
         | Inr track3 \<Rightarrow>
             if num_sectors track3 = 0 then Inr (Some (track3\<lparr>loaded := 1\<rparr>), s9)
             else if data track3 = None then Inl IMD_ERR_ALLOC
             else
               (case load_sectors n (sector_size track3) fill_byte [] [] s9 of
                  Inl e \<Rightarrow> Inl e
                | Inr (flags, buf, s10) \<Rightarrow>
                    Inr (Some (track3\<lparr>sflag := memcpy_prefix (sflag track3) flags n,
                                       data := Some buf, loaded := 1\<rparr>), s10)))))))))"

text \<open>The \<open>int\<close> that \<open>imd_load_track\<close> returns.\<close>

definition load_return_value :: "imd_error + (ImdTrackInfo option \<times> u8 list) \<Rightarrow> int" where
  "load_return_value r =
     (case r of Inl e \<Rightarrow> imd_err_code e | Inr (None, _) \<Rightarrow> 0 | Inr (Some _, _) \<Rightarrow> 1)"

definition imd_is_uniform :: "u8 list \<Rightarrow> bool" where
  "imd_is_uniform bs = (case bs of [] \<Rightarrow> True | b # rest \<Rightarrow> list_all (\<lambda>x. x = b) rest)"

text \<open>
  \<open>imd_is_uniform\<close> returns 1 for an empty buffer and otherwise compares every byte with
  the first one, which it also stores through \<open>fill_byte_out\<close>; \<open>uniform_fill_byte\<close> is
  what the caller's variable (initialised to 0) holds afterwards.
\<close>

definition uniform_fill_byte :: "u8 list \<Rightarrow> u8" where
  "uniform_fill_byte bs = (case bs of [] \<Rightarrow> 0 | b # rest \<Rightarrow> b)"

section \<open>libimd.c: interleave\<close>

definition LIBIMD_INVALID_SECTOR_POS :: u8 where
  "LIBIMD_INVALID_SECTOR_POS = 0xFF"

text \<open>
  The bubble sort both interleave functions run on a copy of the first \<open>n\<close> entries of
  the sector map: \<open>bubble_step\<close> is the body of the inner loop, the two \<open>fold\<close>s are the
  two \<open>for\<close> loops (\<open>i\<close> from 0 below \<open>n - 1\<close>, \<open>j\<close> from 0 below \<open>n - i - 1\<close>).
\<close>

definition bubble_step :: "nat \<Rightarrow> u8 list \<Rightarrow> u8 list" where
  "bubble_step j a = (if a ! j > a ! (j + 1) then a[j := a ! (j + 1), j + 1 := a ! j] else a)"

definition bubble_sort :: "nat \<Rightarrow> u8 list \<Rightarrow> u8 list" where
  "bubble_sort n a = fold (\<lambda>i. fold bubble_step [0..<n - i - 1]) [0..<n - 1] a"

text \<open>
  \<open>imd_calculate_best_interleave\<close>. \<open>sector_pos\<close> has one entry per sector ID, set to the
  invalid marker and then to the physical index of each ID (a later duplicate overwrites an
  earlier one); \<open>interleave_counts\<close> is an array of \<open>uint8_t\<close>, so each increment is
  modulo 256; \<open>distance\<close>, \<open>max_count\<close> and \<open>best_interleave\<close> are \<open>int\<close>.
\<close>

definition build_sector_pos :: "u8 list \<Rightarrow> nat \<Rightarrow> u8 list" where
  "build_sector_pos sm n =
     fold (\<lambda>i sector_pos. sector_pos[unat (sm ! i) := word_of_nat i]) [0..<n]
       (replicate LIBIMD_MAX_SECTORS_PER_TRACK LIBIMD_INVALID_SECTOR_POS)"

definition tally_step :: "u8 list \<Rightarrow> u8 list \<Rightarrow> nat \<Rightarrow> nat \<Rightarrow> u8 list \<Rightarrow> u8 list" where
  "tally_step sorted_smap sector_pos n i interleave_counts =
     (let current_sec_id = sorted_smap ! i;
          next_sec_id = sorted_smap ! ((i + 1) mod n);
          current_pos = sector_pos ! unat current_sec_id;
          next_pos = sector_pos ! unat next_sec_id
      in if current_pos = LIBIMD_INVALID_SECTOR_POS \<or> next_pos = LIBIMD_INVALID_SECTOR_POS
         then interleave_counts
         else let distance = (if next_pos \<ge> current_pos then uint next_pos - uint current_pos
                              else int n - (uint current_pos - uint next_pos))
           in if distance > 0 \<and> distance < int n
              then interleave_counts[nat distance := interleave_counts ! nat distance + 1]
              else interleave_counts)"

definition interleave_tally :: "u8 list \<Rightarrow> nat \<Rightarrow> u8 list" where
  "interleave_tally sm n =
     fold (tally_step (bubble_sort n (take n sm)) (build_sector_pos sm n) n) [0..<n]
       (replicate LIBIMD_MAX_SECTORS_PER_TRACK 0)"

definition best_step :: "u8 list \<Rightarrow> nat \<Rightarrow> int \<times> int \<Rightarrow> int \<times> int" where
  "best_step interleave_counts i st =
     (case st of (max_count, best_interleave) \<Rightarrow>
        if uint (interleave_counts ! i) > max_count
        then (uint (interleave_counts ! i), int i) else (max_count, best_interleave))"

definition imd_calculate_best_interleave :: "ImdTrackInfo \<Rightarrow> int" where
  "imd_calculate_best_interleave track =
     (if num_sectors track < 2 then 1
      else let n = unat (num_sectors track) in
        snd (fold (best_step (interleave_tally (smap track) n)) [1..<n] (0, 1)))"

text \<open>
  \<open>imd_apply_interleave\<close>. \<open>logical_to_physical\<close> holds, for the \<open>i\<close>-th sorted ID, the
  first index of the original map with that ID (the inner loop stops at the first match);
  an ID that is not found makes the function return \<open>IMD_ERR_SECTOR_NOT_FOUND\<close>.
\<close>

definition logical_to_physical :: "nat \<Rightarrow> u8 list \<Rightarrow> u8 list \<Rightarrow> nat list option" where
  "logical_to_physical n original_smap sorted_smap =
     those (map (\<lambda>i. find (\<lambda>k. original_smap ! k = sorted_smap ! i) [0..<n]) [0..<n])"

text \<open>
  The \<open>while (physical_pos_used[current_physical_pos])\<close> loop steps through the slots
  modulo \<open>n\<close>. After \<open>n\<close> steps it is back where it started, so it runs forever exactly
  when the fuel \<open>n\<close> runs out: \<open>None\<close> stands for that.
\<close>

fun next_free :: "nat \<Rightarrow> u8 list \<Rightarrow> nat \<Rightarrow> nat \<Rightarrow> nat option" where
  "next_free 0 physical_pos_used n current_physical_pos = None"
| "next_free (Suc fuel) physical_pos_used n current_physical_pos =
     (if physical_pos_used ! current_physical_pos \<noteq> 0
      then next_free fuel physical_pos_used n ((current_physical_pos + 1) mod n)
      else Some current_physical_pos)"

text \<open>
  The state of the placement loop: the four maps and the data buffer of the track being
  rewritten, the slots taken, and the target position. The target position and the
  interleave factor are \<open>int\<close>s of 32 bits: when their sum at the end of an iteration
  exceeds \<open>INT_MAX\<close> the addition overflows and C gives the call no defined result,
  which is \<open>None\<close> here as well.
\<close>

definition INT_MAX :: int where
  "INT_MAX = 2147483647"

record place_state =
  ps_smap :: "u8 list"
  ps_cmap :: "u8 list"
  ps_hmap :: "u8 list"
  ps_sflag :: "u8 list"
  ps_data :: "u8 list"
  ps_used :: "u8 list"
  ps_pos :: nat

definition place_step :: "ImdTrackInfo \<Rightarrow> int \<Rightarrow> nat list \<Rightarrow> nat \<Rightarrow>
    place_state option \<Rightarrow> place_state option" where
  "place_step orig il_factor l2p i st =
     (case st of
        None \<Rightarrow> None
      | Some ps \<Rightarrow>
          let n = unat (num_sectors orig) in
          (case next_free n (ps_used ps) n (ps_pos ps) of
             None \<Rightarrow> None
           | Some p \<Rightarrow>
               if int p + il_factor > INT_MAX then None
               else
               let original_index = l2p ! i in
               Some \<lparr> ps_smap = (ps_smap ps)[p := smap orig ! original_index],
                      ps_cmap = (ps_cmap ps)[p := cmap orig ! original_index],
                      ps_hmap = (ps_hmap ps)[p := hmap orig ! original_index],
                      ps_sflag = (ps_sflag ps)[p := sflag orig ! original_index],
                      ps_data = (if sector_size orig > 0
                                 then store_sector (ps_data ps) (sector_size orig) p
                                        (sector_bytes (the (data orig)) (sector_size orig)
                                           original_index)
                                 else ps_data ps),
                      ps_used = (ps_used ps)[p := 1],
                      ps_pos = nat ((int p + il_factor) mod int n) \<rparr>))"

text \<open>
  The result is \<open>None\<close> when the call has no defined result (the placement loop does
  not terminate, or the position overflows), \<open>Some (Inl e)\<close> for an error return and
  \<open>Some (Inr track')\<close> for the return value 0 with the track rewritten in place. The
  allocation of the backup buffer is taken to succeed.
\<close>

definition imd_apply_interleave :: "ImdTrackInfo \<Rightarrow> int \<Rightarrow> (imd_error + ImdTrackInfo) option" where
  "imd_apply_interleave track il_factor =
     (if loaded track = 0 \<or> data track = None \<or> num_sectors track < 2 \<or> il_factor < 1
      then Some (Inl IMD_ERR_INVALID_ARG)
      else let n = unat (num_sectors track);
               sorted_smap = bubble_sort n (take n (smap track)) in
        (case logical_to_physical n (smap track) sorted_smap of
           None \<Rightarrow> Some (Inl IMD_ERR_SECTOR_NOT_FOUND)
         | Some l2p \<Rightarrow>
             (case fold (place_step track il_factor l2p) [0..<n]
                     (Some \<lparr> ps_smap = smap track, ps_cmap = cmap track, ps_hmap = hmap track,
                             ps_sflag = sflag track, ps_data = the (data track),
                             ps_used = replicate LIBIMD_MAX_SECTORS_PER_TRACK 0,
                             ps_pos = 0 \<rparr>) of
                None \<Rightarrow> None
              | Some ps \<Rightarrow>
                  Some (Inr (track\<lparr>smap := ps_smap ps, cmap := ps_cmap ps, hmap := ps_hmap ps,
                                   sflag := ps_sflag ps, data := Some (ps_data ps)\<rparr>)))))"

section \<open>libimd.c: writing a track\<close>

text \<open>
  The first step of \<open>imd_write_track_imd\<close>: the working copy \<open>track_to_write\<close>, with
  the interleave applied when one is requested and the track has more than one sector.
\<close>

definition track_to_write :: "ImdTrackInfo \<Rightarrow> ImdWriteOpts \<Rightarrow> (imd_error + ImdTrackInfo) option" where
  "track_to_write track opts =
     (let il_factor = interleave_factor opts in
      if il_factor \<noteq> LIBIMD_IL_AS_READ \<and> num_sectors track > 1
      then imd_apply_interleave track
             (if il_factor = LIBIMD_IL_BEST_GUESS then imd_calculate_best_interleave track
              else il_factor)
      else Some (Inr track))"

definition final_mode :: "ImdTrackInfo \<Rightarrow> ImdWriteOpts \<Rightarrow> u8" where
  "final_mode tw opts =
     (if unat (mode tw) < LIBIMD_NUM_MODES then tmode opts ! unat (mode tw) else mode tw)"

text \<open>\<open>sector_data\<close> is non-NULL when the buffer exists and reaches the end of sector \<open>i\<close>.\<close>

definition sector_data_ok :: "ImdTrackInfo \<Rightarrow> nat \<Rightarrow> bool" where
  "sector_data_ok tw i \<longleftrightarrow> data tw \<noteq> None \<and> data_size tw \<ge> (i + 1) * sector_size tw"

definition combine_sflag :: "u8 \<Rightarrow> bool \<Rightarrow> bool \<Rightarrow> u8" where
  "combine_sflag target_base_type target_has_dam target_has_err =
     (if target_base_type = IMD_SDR_NORMAL then
        (if target_has_dam \<and> target_has_err then IMD_SDR_DELETED_ERR
         else if target_has_err then IMD_SDR_NORMAL_ERR
         else if target_has_dam then IMD_SDR_NORMAL_DAM
         else IMD_SDR_NORMAL)
      else
        (if target_has_dam \<and> target_has_err then IMD_SDR_COMPRESSED_DEL_ERR
         else if target_has_err then IMD_SDR_COMPRESSED_ERR
         else if target_has_dam then IMD_SDR_COMPRESSED_DAM
         else IMD_SDR_COMPRESSED))"

text \<open>The body of the sector flag loop: the flag to write for sector \<open>i\<close>, or the error.\<close>

definition final_sflag_at :: "ImdTrackInfo \<Rightarrow> ImdWriteOpts \<Rightarrow> nat \<Rightarrow> imd_error + u8" where
  "final_sflag_at tw opts i =
     (let original_flag = sflag tw ! i in
      if original_flag = IMD_SDR_UNAVAILABLE then Inr IMD_SDR_UNAVAILABLE
      else if \<not> sector_data_ok tw i \<and> sector_size tw > 0 then Inl IMD_ERR_INVALID_ARG
      else
        let is_uniform_sector =
              (sector_data_ok tw i \<and> sector_size tw > 0 \<and>
               imd_is_uniform (sector_bytes (the (data tw)) (sector_size tw) i));
            target_base_type =
              (if compression_mode opts = IMD_COMPRESSION_FORCE_COMPRESS
               then (if is_uniform_sector then IMD_SDR_COMPRESSED else IMD_SDR_NORMAL)
               else if compression_mode opts = IMD_COMPRESSION_FORCE_DECOMPRESS
               then IMD_SDR_NORMAL
               else if IMD_SDR_IS_COMPRESSED original_flag
               then (if is_uniform_sector then IMD_SDR_COMPRESSED else IMD_SDR_NORMAL)
               else IMD_SDR_NORMAL);
            target_has_dam = (IMD_SDR_HAS_DAM original_flag \<and> force_non_deleted opts = 0);
            target_has_err = (IMD_SDR_HAS_ERR original_flag \<and> force_non_bad opts = 0)
        in Inr (combine_sflag target_base_type target_has_dam target_has_err))"

text \<open>A loop whose body may return an error: the first error in index order ends it.\<close>

fun for_each :: "('a \<Rightarrow> 'e + 'b) \<Rightarrow> 'a list \<Rightarrow> 'e + 'b list" where
  "for_each f [] = Inr []"
| "for_each f (x # xs) =
     (case f x of
        Inl e \<Rightarrow> Inl e
      | Inr y \<Rightarrow> (case for_each f xs of Inl e \<Rightarrow> Inl e | Inr ys \<Rightarrow> Inr (y # ys)))"

definition final_sflags :: "ImdTrackInfo \<Rightarrow> ImdWriteOpts \<Rightarrow> imd_error + u8 list" where
  "final_sflags tw opts = for_each (final_sflag_at tw opts) [0..<unat (num_sectors tw)]"

definition track_header_bytes :: "ImdTrackInfo \<Rightarrow> ImdWriteOpts \<Rightarrow> u8 list" where
  "track_header_bytes tw opts =
     [final_mode tw opts, cyl tw, head tw OR hflag tw, num_sectors tw, sector_size_code tw]"

definition track_map_bytes :: "ImdTrackInfo \<Rightarrow> u8 list" where
  "track_map_bytes tw =
     (let n = unat (num_sectors tw) in
      if n > 0 then
        take n (smap tw)
        @ (if hflag tw AND IMD_HFLAG_CMAP_PRES \<noteq> 0 then take n (cmap tw) else [])
        @ (if hflag tw AND IMD_HFLAG_HMAP_PRES \<noteq> 0 then take n (hmap tw) else [])
      else [])"

text \<open>The Sector Data Record written for sector \<open>i\<close> with the flag \<open>write_flag\<close>.\<close>

definition sector_record :: "ImdTrackInfo \<Rightarrow> u8 \<Rightarrow> nat \<Rightarrow> imd_error + u8 list" where
  "sector_record tw write_flag i =
     (if IMD_SDR_HAS_DATA write_flag then
        (if IMD_SDR_IS_COMPRESSED write_flag then
           (if \<not> sector_data_ok tw i then Inl IMD_ERR_INVALID_ARG
            else Inr [write_flag,
                      uniform_fill_byte (sector_bytes (the (data tw)) (sector_size tw) i)])
         else if sector_size tw > 0 then
           (if \<not> sector_data_ok tw i then Inl IMD_ERR_INVALID_ARG
            else Inr (write_flag # sector_bytes (the (data tw)) (sector_size tw) i))
         else Inr [write_flag])
      else Inr [write_flag])"

text \<open>
  \<open>imd_write_track_imd\<close>: the bytes written to \<open>fout\<close> (writes to the stream are taken
  to succeed), or the error returned. \<open>None\<close> is inherited from
  \<open>imd_apply_interleave\<close>.
\<close>

definition imd_write_track_imd :: "ImdTrackInfo \<Rightarrow> ImdWriteOpts \<Rightarrow> (imd_error + u8 list) option" where
  "imd_write_track_imd track opts =
     (if loaded track = 0 then Some (Inl IMD_ERR_INVALID_ARG)
      else
        (case track_to_write track opts of
           None \<Rightarrow> None
         | Some (Inl e) \<Rightarrow> Some (Inl e)
         | Some (Inr tw) \<Rightarrow>
             (case final_sflags tw opts of
                Inl e \<Rightarrow> Some (Inl e)
              | Inr final_sflag \<Rightarrow>
                  (case for_each (\<lambda>i. sector_record tw (final_sflag ! i) i)
                          [0..<unat (num_sectors tw)] of
                     Inl e \<Rightarrow> Some (Inl e)
                   | Inr records \<Rightarrow>
                       Some (Inr (track_header_bytes tw opts @ track_map_bytes tw
                                  @ concat records))))))"

section \<open>libimd.c: the header line\<close>

record ImdHeaderInfo =
  version :: string
  day :: int
  month :: int
  year :: int
  hour :: int
  minute :: int
  second :: int








definition is_space :: "char \<Rightarrow> bool" where
  "is_space c \<longleftrightarrow> c = CHR '' '' \<or> c = CHR 0x09 \<or> c = CHR 0x0A \<or> c = CHR 0x0B \<or>
     c = CHR 0x0C \<or> c = CHR 0x0D"

definition is_digit :: "char \<Rightarrow> bool" where
  "is_digit c \<longleftrightarrow> (48::nat) \<le> of_char c \<and> of_char c \<le> (57::nat)"

definition decimal :: "string \<Rightarrow> int" where
  "decimal ds = foldl (\<lambda>v c. 10 * v + (int (of_char c) - 48)) 0 ds"

definition LONG_MAX :: int where
  "LONG_MAX = 9223372036854775807"

definition LONG_MIN :: int where
  "LONG_MIN = - 9223372036854775808"

definition strtol_value :: "int \<Rightarrow> int" where
  "strtol_value v = (if v > LONG_MAX then LONG_MAX else if v < LONG_MIN then LONG_MIN else v)"

definition int_of_long :: "int \<Rightarrow> int" where
  "int_of_long v = (v + 2147483648) mod 4294967296 - 2147483648"

definition scan_d :: "string \<Rightarrow> (int \<times> string) option" where
  "scan_d s =
     (let neg = (s \<noteq> [] \<and> hd s = CHR ''-'');
          s1 = (if s \<noteq> [] \<and> (hd s = CHR ''-'' \<or> hd s = CHR ''+'') then tl s else s);
          ds = takeWhile is_digit s1
      in if ds = [] then None
         else Some (int_of_long (strtol_value (if neg then - decimal ds else decimal ds)),
                    drop (length ds) s1))"





definition zero_header_info :: ImdHeaderInfo where
  "zero_header_info = \<lparr> version = [], day = 0, month = 0, year = 0,
                         hour = 0, minute = 0, second = 0 \<rparr>"










text \<open>
  \<open>imd_write_file_header\<close> and \<open>imd_write_comment_block\<close>: the bytes they write.
  \<open>timestamp\<close> is the text \<open>strftime\<close> produced from the current local time.
\<close>

definition imd_write_file_header :: "string \<Rightarrow> string \<Rightarrow> u8 list" where
  "imd_write_file_header version_string timestamp =
     map of_char (''IMD '' @ version_string @ '': '' @ timestamp @ [CHR 0x0D, CHR 0x0A])"

definition imd_write_comment_block :: "u8 list \<Rightarrow> u8 list" where
  "imd_write_comment_block comment_bytes = comment_bytes @ [LIBIMD_COMMENT_EOF_MARKER]"

section \<open>libimdf.c: the in-memory image\<close>

datatype imdf_error =
    IMDF_ERR_WRITE_PROTECTED
  | IMDF_ERR_GEOMETRY
  | IMDF_ERR_NOT_FOUND
  | IMDF_ERR_ALLOC
  | IMDF_ERR_IO
  | IMDF_ERR_INVALID_ARG
  | IMDF_ERR_SECTOR_SIZE
  | IMDF_ERR_BUFFER_SIZE
  | IMDF_ERR_UNAVAILABLE
  | IMDF_ERR_LIBIMD_ERR
  | IMDF_ERR_ALREADY_OPEN
  | IMDF_ERR_CANNOT_OPEN

text \<open>
  \<open>struct ImdImageFile\<close>. \<open>file_bytes\<close> is the content of the backing file behind
  \<open>file_ptr\<close>; \<open>tracks\<close> is \<open>tracks[0 .. num_tracks)\<close> (the array grows by \<open>realloc\<close>,
  which is taken to succeed, so its capacity is not part of the model); \<open>comment\<close> is the
  comment with its length.
\<close>

record ImdImageFile =
  file_bytes :: "u8 list"
  write_protected :: int
  read_only_open :: int
  header_info :: ImdHeaderInfo
  comment :: "u8 list"
  tracks :: "ImdTrackInfo list"
  max_cyl :: u8
  max_head :: u8
  max_spt :: u8

definition default_libimdf_write_opts :: ImdWriteOpts where
  "default_libimdf_write_opts =
     \<lparr> compression_mode = IMD_COMPRESSION_AS_READ, force_non_bad = 0, force_non_deleted = 0,
       tmode = [0, 1, 2, 3, 4, 5], interleave_factor = LIBIMD_IL_AS_READ \<rparr>"

definition find_track_index_internal :: "ImdImageFile \<Rightarrow> u8 \<Rightarrow> u8 \<Rightarrow> nat option" where
  "find_track_index_internal imdf c h =
     find (\<lambda>i. cyl (tracks imdf ! i) = c \<and> head (tracks imdf ! i) = h)
       [0..<length (tracks imdf)]"

definition find_sector_index_internal :: "ImdTrackInfo \<Rightarrow> u8 \<Rightarrow> nat option" where
  "find_sector_index_internal track logical_sector_id =
     find (\<lambda>i. smap track ! i = logical_sector_id) [0..<unat (num_sectors track)]"

fun map_libimd_error :: "imd_error \<Rightarrow> imdf_error" where
  "map_libimd_error IMD_ERR_READ_ERROR = IMDF_ERR_IO"
| "map_libimd_error IMD_ERR_WRITE_ERROR = IMDF_ERR_IO"
| "map_libimd_error IMD_ERR_SEEK_ERROR = IMDF_ERR_IO"
| "map_libimd_error IMD_ERR_ALLOC = IMDF_ERR_ALLOC"
| "map_libimd_error IMD_ERR_INVALID_ARG = IMDF_ERR_INVALID_ARG"
| "map_libimd_error IMD_ERR_BUFFER_TOO_SMALL = IMDF_ERR_BUFFER_SIZE"
| "map_libimd_error IMD_ERR_SECTOR_NOT_FOUND = IMDF_ERR_NOT_FOUND"
| "map_libimd_error IMD_ERR_TRACK_NOT_FOUND = IMDF_ERR_NOT_FOUND"
| "map_libimd_error IMD_ERR_UNAVAILABLE = IMDF_ERR_UNAVAILABLE"
| "map_libimd_error IMD_ERR_SIZE_MISMATCH = IMDF_ERR_SECTOR_SIZE"

text \<open>
  The track loop of \<open>rewrite_image_file\<close>: the bytes of the tracks from index \<open>i\<close> on,
  the track at \<open>modified_track_index\<close> written with \<open>modified_track_opts\<close> and every other
  one with the default options.
\<close>

fun rewrite_tracks :: "ImdTrackInfo list \<Rightarrow> nat \<Rightarrow> nat \<Rightarrow> ImdWriteOpts \<Rightarrow>
    (imdf_error + u8 list) option" where
  "rewrite_tracks [] i modified_track_index modified_track_opts = Some (Inr [])"
| "rewrite_tracks (t # ts) i modified_track_index modified_track_opts =
     (let opts_to_use = (if i = modified_track_index then modified_track_opts
                         else default_libimdf_write_opts) in
      if loaded t = 0 then Some (Inl IMDF_ERR_LIBIMD_ERR)
      else
        (case imd_write_track_imd t opts_to_use of
           None \<Rightarrow> None
         | Some (Inl e) \<Rightarrow> Some (Inl (map_libimd_error e))
         | Some (Inr bytes) \<Rightarrow>
             (case rewrite_tracks ts (i + 1) modified_track_index modified_track_opts of
                None \<Rightarrow> None
              | Some (Inl e) \<Rightarrow> Some (Inl e)
              | Some (Inr rest_bytes) \<Rightarrow> Some (Inr (bytes @ rest_bytes)))))"

text \<open>
  \<open>rewrite_image_file\<close>: the new content of the backing file. Seeking, writing, flushing
  and truncating the file are taken to succeed, so the file ends where the last track ends.
\<close>

definition rewrite_image_file :: "ImdImageFile \<Rightarrow> nat \<Rightarrow> ImdWriteOpts \<Rightarrow> string \<Rightarrow>
    (imdf_error + u8 list) option" where
  "rewrite_image_file imdf modified_track_index modified_track_opts timestamp =
     (let version_to_write =
            (if version (header_info imdf) = [] \<or> version (header_info imdf) = ''Unknown''
             then ''1.19'' else version (header_info imdf))
      in case rewrite_tracks (tracks imdf) 0 modified_track_index modified_track_opts of
           None \<Rightarrow> None
         | Some (Inl e) \<Rightarrow> Some (Inl e)
         | Some (Inr track_bytes) \<Rightarrow>
             Some (Inr (imd_write_file_header version_to_write timestamp
                        @ imd_write_comment_block (comment imdf) @ track_bytes)))"

text \<open>
  \<open>find_insertion_index\<close>: the binary search, \<open>low\<close> and \<open>high\<close> as in the loop.
\<close>

function find_insertion_loop :: "ImdTrackInfo list \<Rightarrow> u8 \<Rightarrow> u8 \<Rightarrow> nat \<Rightarrow> nat \<Rightarrow> nat" where
  "find_insertion_loop ts c h low high =
     (if low < high then
        (if cyl (ts ! (low + (high - low) div 2)) < c \<or>
            (cyl (ts ! (low + (high - low) div 2)) = c \<and>
             head (ts ! (low + (high - low) div 2)) < h)
         then find_insertion_loop ts c h (low + (high - low) div 2 + 1) high
         else find_insertion_loop ts c h low (low + (high - low) div 2))
      else low)"
  by pat_completeness auto
termination
  by (relation "measure (\<lambda>(ts, c, h, low, high). high - low)") auto

declare find_insertion_loop.simps [simp del]

definition find_insertion_index :: "ImdImageFile \<Rightarrow> u8 \<Rightarrow> u8 \<Rightarrow> nat" where
  "find_insertion_index imdf c h = find_insertion_loop (tracks imdf) c h 0 (length (tracks imdf))"

definition get_sector_size_code :: "nat \<Rightarrow> u8 option" where
  "get_sector_size_code ssize =
     map_option word_of_nat
       (find (\<lambda>i. SECTOR_SIZE_LOOKUP ! i = ssize) [0..<SECTOR_SIZE_LOOKUP_COUNT])"

definition geometry_exceeded :: "ImdImageFile \<Rightarrow> u8 \<Rightarrow> u8 \<Rightarrow> bool" where
  "geometry_exceeded imdf c h \<longleftrightarrow>
     (max_cyl imdf \<noteq> 0xFF \<and> c > max_cyl imdf) \<or> (max_head imdf \<noteq> 0xFF \<and> h > max_head imdf)"

text \<open>
  The update of the in-memory flags after \<open>imdf_write_sector\<close> rewrote the track
  uncompressed (\<open>normal_base_sflag\<close>, applied to every sector), and the flag predicted for
  the edited sector otherwise.
\<close>

definition normal_base_sflag :: "u8 \<Rightarrow> u8" where
  "normal_base_sflag current_sflag_val =
     (if IMD_SDR_HAS_DAM current_sflag_val \<and> IMD_SDR_HAS_ERR current_sflag_val
      then IMD_SDR_DELETED_ERR
      else if IMD_SDR_HAS_ERR current_sflag_val then IMD_SDR_NORMAL_ERR
      else if IMD_SDR_HAS_DAM current_sflag_val then IMD_SDR_NORMAL_DAM
      else IMD_SDR_NORMAL)"

definition predicted_sflag :: "ImdWriteOpts \<Rightarrow> u8 \<Rightarrow> bool \<Rightarrow> u8" where
  "predicted_sflag write_opts original_sflag is_edited_sector_data_uniform =
     (let final_dam = (IMD_SDR_HAS_DAM original_sflag \<and> force_non_deleted write_opts = 0);
          final_err = (IMD_SDR_HAS_ERR original_sflag \<and> force_non_bad write_opts = 0);
          base =
            (if compression_mode write_opts = IMD_COMPRESSION_FORCE_DECOMPRESS
             then IMD_SDR_NORMAL
             else if compression_mode write_opts = IMD_COMPRESSION_FORCE_COMPRESS
             then (if is_edited_sector_data_uniform then IMD_SDR_COMPRESSED else IMD_SDR_NORMAL)
             else if IMD_SDR_IS_COMPRESSED original_sflag
             then (if is_edited_sector_data_uniform then IMD_SDR_COMPRESSED else IMD_SDR_NORMAL)
             else if is_edited_sector_data_uniform \<and>
                     compression_mode write_opts = IMD_COMPRESSION_AS_READ
             then IMD_SDR_COMPRESSED
             else IMD_SDR_NORMAL)
      in combine_sflag base final_dam final_err)"

text \<open>
  \<open>imdf_write_sector\<close>. \<open>buffer\<close> is the caller's buffer, \<open>buffer_size\<close> its length.
  The result is \<open>None\<close> when a track write does not terminate, \<open>Some (Inl e)\<close> for an
  error code and \<open>Some (Inr imdf')\<close> for \<open>IMDF_ERR_OK\<close>, with the image and its file as
  they are afterwards.
\<close>

definition imdf_write_sector :: "ImdImageFile \<Rightarrow> u8 \<Rightarrow> u8 \<Rightarrow> u8 \<Rightarrow> u8 list \<Rightarrow> string \<Rightarrow>
    (imdf_error + ImdImageFile) option" where
  "imdf_write_sector imdf c h logical_sector_id buffer timestamp =
     (if write_protected imdf \<noteq> 0 then Some (Inl IMDF_ERR_WRITE_PROTECTED)
      else if geometry_exceeded imdf c h then Some (Inl IMDF_ERR_GEOMETRY)
      else case find_track_index_internal imdf c h of
        None \<Rightarrow> Some (Inl IMDF_ERR_NOT_FOUND)
      | Some track_idx \<Rightarrow>
      let track = tracks imdf ! track_idx in
      case find_sector_index_internal track logical_sector_id of
        None \<Rightarrow> Some (Inl IMDF_ERR_NOT_FOUND)
      | Some sector_idx \<Rightarrow>
      if max_spt imdf \<noteq> 0xFF \<and> logical_sector_id > max_spt imdf \<and> logical_sector_id \<noteq> 0
      then Some (Inl IMDF_ERR_GEOMETRY)
      else if length buffer \<noteq> sector_size track then Some (Inl IMDF_ERR_SECTOR_SIZE)
      else if data track = None \<or>
              data_size track < sector_idx * sector_size track + sector_size track
      then Some (Inl IMDF_ERR_LIBIMD_ERR)
      else
        let original_sflag_of_edited_sector = sflag track ! sector_idx;
            was_edited_sector_compressed = IMD_SDR_IS_COMPRESSED original_sflag_of_edited_sector;
            track1 = track\<lparr>data := Some (store_sector (the (data track)) (sector_size track)
                                           sector_idx buffer)\<rparr>;
            track_rewritten_as_uncompressed =
              (was_edited_sector_compressed \<and> \<not> imd_is_uniform (take (sector_size track) buffer));
            write_opts = default_libimdf_write_opts\<lparr>compression_mode :=
              (if track_rewritten_as_uncompressed then IMD_COMPRESSION_FORCE_DECOMPRESS
               else IMD_COMPRESSION_AS_READ)\<rparr>;
            imdf1 = imdf\<lparr>tracks := (tracks imdf)[track_idx := track1]\<rparr>
        in case rewrite_image_file imdf1 track_idx write_opts timestamp of
             None \<Rightarrow> None
           | Some (Inl e) \<Rightarrow> Some (Inl e)
           | Some (Inr new_file) \<Rightarrow>
               let n = unat (num_sectors track1);
                   track2 =
                     (if track_rewritten_as_uncompressed
                      then track1\<lparr>sflag := map normal_base_sflag (take n (sflag track1))
                                             @ drop n (sflag track1)\<rparr>
                      else track1\<lparr>sflag := (sflag track1)[sector_idx :=
                             predicted_sflag write_opts original_sflag_of_edited_sector
                               (imd_is_uniform (sector_bytes (the (data track1))
                                  (sector_size track1) sector_idx))]\<rparr>)
               in Some (Inr (imdf1\<lparr>tracks := (tracks imdf1)[track_idx := track2],
                                   file_bytes := new_file\<rparr>)))"

text \<open>
  \<open>imdf_write_track\<close>. \<open>smap_in\<close>, \<open>cmap_in\<close> and \<open>hmap_in\<close> are the caller's arrays,
  \<open>None\<close> for NULL. An existing track at (cyl, head) is overwritten in place, a new one is
  inserted at \<open>find_insertion_index\<close>.
\<close>

definition new_track :: "u8 \<Rightarrow> u8 \<Rightarrow> u8 \<Rightarrow> nat \<Rightarrow> u8 \<Rightarrow> u8 \<Rightarrow>
    u8 list option \<Rightarrow> u8 list option \<Rightarrow> u8 list option \<Rightarrow> imd_error + ImdTrackInfo" where
  "new_track c h nsec ssize ssize_code fill_byte smap_in cmap_in hmap_in =
     (let n = unat nsec;
          t0 = zero_track\<lparr>cyl := c, head := h, num_sectors := nsec,
                 sector_size_code := ssize_code, sector_size := ssize,
                 mode := IMD_MODE_MFM_250, loaded := 1,
                 hflag := (if n > 0 then
                             (if cmap_in \<noteq> None then IMD_HFLAG_CMAP_PRES else 0) OR
                             (if hmap_in \<noteq> None then IMD_HFLAG_HMAP_PRES else 0)
                           else 0)\<rparr>
      in if n > 0 then
           (case imd_alloc_track_data t0 of
              Inl e \<Rightarrow> Inl e
            | Inr t1 \<Rightarrow>
                Inr (t1\<lparr>data := Some (replicate (data_size t1) fill_byte),
                        sflag := memset_prefix (sflag t1) IMD_SDR_NORMAL n,
                        smap := (case smap_in of
                                   Some sm \<Rightarrow> memcpy_prefix (smap t1) sm n
                                 | None \<Rightarrow> map (\<lambda>i. word_of_nat i + 1) [0..<n] @ drop n (smap t1)),
                        cmap := (case cmap_in of
                                   Some cm \<Rightarrow> memcpy_prefix (cmap t1) cm n | None \<Rightarrow> cmap t1),
                        hmap := (case hmap_in of
                                   Some hm \<Rightarrow> memcpy_prefix (hmap t1) hm n | None \<Rightarrow> hmap t1)\<rparr>))
         else Inr (t0\<lparr>data := None, data_size := 0\<rparr>))"

text \<open>
  Where the track goes: over the existing track with this (cyl, head), or into the
  vector at the insertion index, the tracks from there on moved up by one.
\<close>

definition place_track :: "ImdImageFile \<Rightarrow> u8 \<Rightarrow> u8 \<Rightarrow> ImdTrackInfo \<Rightarrow>
    nat \<times> ImdTrackInfo list" where
  "place_track imdf c h t =
     (case find_track_index_internal imdf c h of
        Some idx \<Rightarrow> (idx, (tracks imdf)[idx := t])
      | None \<Rightarrow>
          let insert_idx = find_insertion_index imdf c h in
          (insert_idx, take insert_idx (tracks imdf) @ t # drop insert_idx (tracks imdf)))"

text \<open>The flags predicted after the rewrite: every sector compressed.\<close>

definition predict_compressed :: "ImdTrackInfo \<Rightarrow> ImdTrackInfo" where
  "predict_compressed t =
     (if num_sectors t > 0
      then t\<lparr>sflag := memset_prefix (sflag t) IMD_SDR_COMPRESSED (unat (num_sectors t))\<rparr>
      else t)"

definition imdf_write_track :: "ImdImageFile \<Rightarrow> u8 \<Rightarrow> u8 \<Rightarrow> u8 \<Rightarrow> nat \<Rightarrow> u8 \<Rightarrow>
    u8 list option \<Rightarrow> u8 list option \<Rightarrow> u8 list option \<Rightarrow> string \<Rightarrow>
    (imdf_error + ImdImageFile) option" where
  "imdf_write_track imdf c h nsec ssize fill_byte smap_in cmap_in hmap_in timestamp =
     (if write_protected imdf \<noteq> 0 then Some (Inl IMDF_ERR_WRITE_PROTECTED)
      else if geometry_exceeded imdf c h then Some (Inl IMDF_ERR_GEOMETRY)
      else if nsec > 0 \<and> smap_in = None \<and> (cmap_in \<noteq> None \<or> hmap_in \<noteq> None)
      then Some (Inl IMDF_ERR_INVALID_ARG)
      else case get_sector_size_code ssize of
        None \<Rightarrow> Some (Inl IMDF_ERR_SECTOR_SIZE)
      | Some ssize_code \<Rightarrow>
      (case new_track c h nsec ssize ssize_code fill_byte smap_in cmap_in hmap_in of
        Inl e \<Rightarrow> Some (Inl (map_libimd_error e))
      | Inr t \<Rightarrow>
      (case place_track imdf c h t of
        (insert_idx, tracks1) \<Rightarrow>
        (case rewrite_image_file (imdf\<lparr>tracks := tracks1\<rparr>) insert_idx
                (default_libimdf_write_opts\<lparr>compression_mode :=
                   IMD_COMPRESSION_FORCE_COMPRESS\<rparr>) timestamp of
           None \<Rightarrow> None
         | Some (Inl e) \<Rightarrow> Some (Inl e)
         | Some (Inr new_file) \<Rightarrow>
             Some (Inr (imdf\<lparr>tracks := tracks1[insert_idx := predict_compressed t],
                             file_bytes := new_file\<rparr>))))))"

section \<open>libimdchk.c: the consistency scanner\<close>

type_synonym u32 = "32 word"

definition CHECK_BIT_HEADER :: u32 where "CHECK_BIT_HEADER = 0x00000001"
definition CHECK_BIT_COMMENT_TERM :: u32 where "CHECK_BIT_COMMENT_TERM = 0x00000002"
definition CHECK_BIT_TRACK_READ :: u32 where "CHECK_BIT_TRACK_READ = 0x00000004"
definition CHECK_BIT_FTELL :: u32 where "CHECK_BIT_FTELL = 0x00000008"
definition CHECK_BIT_CON_CYL :: u32 where "CHECK_BIT_CON_CYL = 0x00000010"
definition CHECK_BIT_CON_HEAD :: u32 where "CHECK_BIT_CON_HEAD = 0x00000020"
definition CHECK_BIT_CON_SECTORS :: u32 where "CHECK_BIT_CON_SECTORS = 0x00000040"
definition CHECK_BIT_SEQ_CYL_DEC :: u32 where "CHECK_BIT_SEQ_CYL_DEC = 0x00000080"
definition CHECK_BIT_SEQ_HEAD_ORDER :: u32 where "CHECK_BIT_SEQ_HEAD_ORDER = 0x00000100"
definition CHECK_BIT_DUPE_SID :: u32 where "CHECK_BIT_DUPE_SID = 0x00000200"
definition CHECK_BIT_INV_SFLAG_VALUE :: u32 where "CHECK_BIT_INV_SFLAG_VALUE = 0x00000400"
definition CHECK_BIT_SFLAG_DATA_ERR :: u32 where "CHECK_BIT_SFLAG_DATA_ERR = 0x00000800"
definition CHECK_BIT_SFLAG_DEL_DAM :: u32 where "CHECK_BIT_SFLAG_DEL_DAM = 0x00001000"
definition CHECK_BIT_DIFF_MAX_CYL :: u32 where "CHECK_BIT_DIFF_MAX_CYL = 0x00002000"

definition DEFAULT_ERROR_MASK :: u32 where
  "DEFAULT_ERROR_MASK =
     CHECK_BIT_HEADER OR CHECK_BIT_COMMENT_TERM OR CHECK_BIT_TRACK_READ OR CHECK_BIT_FTELL OR
     CHECK_BIT_CON_CYL OR CHECK_BIT_CON_HEAD OR CHECK_BIT_CON_SECTORS OR CHECK_BIT_DUPE_SID OR
     CHECK_BIT_INV_SFLAG_VALUE"

record ImdChkOptions =
  error_mask :: u32
  max_allowed_cyl :: int
  required_head :: int
  max_allowed_sectors :: int

record ImdChkResults =
  check_failures_mask :: u32
  total_sector_count :: int
  unavailable_sector_count :: int
  deleted_sector_count :: int
  compressed_sector_count :: int
  data_error_sector_count :: int
  track_read_count :: int
  max_cyl_side0 :: int
  max_cyl_side1 :: int
  max_head_seen :: int
  detected_interleave :: int

definition fail :: "u32 \<Rightarrow> ImdChkResults \<Rightarrow> ImdChkResults" where
  "fail b res = res\<lparr>check_failures_mask := check_failures_mask res OR b\<rparr>"

text \<open>\<open>check_smap_consistency_internal\<close>, with its bit set \<open>seen_ids\<close> of 32 bytes.\<close>

definition seen_get :: "u8 list \<Rightarrow> u8 \<Rightarrow> bool" where
  "seen_get seen_ids sid \<longleftrightarrow>
     (seen_ids ! (unat sid div 8)) AND push_bit (unat sid mod 8) 1 \<noteq> 0"

definition seen_set :: "u8 list \<Rightarrow> u8 \<Rightarrow> u8 list" where
  "seen_set seen_ids sid =
     seen_ids[unat sid div 8 := (seen_ids ! (unat sid div 8)) OR push_bit (unat sid mod 8) 1]"

definition check_smap_consistency_internal :: "ImdTrackInfo \<Rightarrow> ImdChkResults \<Rightarrow> ImdChkResults" where
  "check_smap_consistency_internal track results =
     (if num_sectors track \<le> 1 then results
      else snd (fold (\<lambda>i (seen_ids, res).
                   let current_id = smap track ! i in
                   if seen_get seen_ids current_id then (seen_ids, fail CHECK_BIT_DUPE_SID res)
                   else (seen_set seen_ids current_id, res))
                 [0..<unat (num_sectors track)] (replicate 32 0, results)))"

definition sflag_stats_step :: "u8 \<Rightarrow> ImdChkResults \<times> bool \<times> bool \<Rightarrow> ImdChkResults \<times> bool \<times> bool" where
  "sflag_stats_step flag st =
     (case st of (res, data_error_found, deleted_dam_found) \<Rightarrow>
        let res1 = (if flag > IMD_SDR_COMPRESSED_DEL_ERR then fail CHECK_BIT_INV_SFLAG_VALUE res
                    else res)
        in if \<not> IMD_SDR_HAS_DATA flag
           then (res1\<lparr>unavailable_sector_count := unavailable_sector_count res1 + 1\<rparr>,
                 data_error_found, deleted_dam_found)
           else
             let res2 = (if IMD_SDR_IS_COMPRESSED flag
                         then res1\<lparr>compressed_sector_count := compressed_sector_count res1 + 1\<rparr>
                         else res1);
                 res3 = (if IMD_SDR_HAS_DAM flag
                         then res2\<lparr>deleted_sector_count := deleted_sector_count res2 + 1\<rparr>
                         else res2);
                 res4 = (if IMD_SDR_HAS_ERR flag
                         then res3\<lparr>data_error_sector_count := data_error_sector_count res3 + 1\<rparr>
                         else res3)
             in (res4, data_error_found \<or> IMD_SDR_HAS_ERR flag,
                 deleted_dam_found \<or> IMD_SDR_HAS_DAM flag))"

definition check_sflag_consistency_and_stats_internal ::
    "ImdTrackInfo \<Rightarrow> ImdChkResults \<Rightarrow> ImdChkResults" where
  "check_sflag_consistency_and_stats_internal track results =
     (let res0 = results\<lparr>total_sector_count :=
                   total_sector_count results + uint (num_sectors track)\<rparr>
      in if num_sectors track = 0 then res0
         else
           (case fold (\<lambda>i. sflag_stats_step (sflag track ! i)) [0..<unat (num_sectors track)]
                   (res0, False, False) of
              (res, data_error_found, deleted_dam_found) \<Rightarrow>
                let res5 = (if data_error_found then fail CHECK_BIT_SFLAG_DATA_ERR res else res)
                in if deleted_dam_found then fail CHECK_BIT_SFLAG_DEL_DAM res5 else res5))"

text \<open>\<open>determine_interleave_internal\<close>; a search that finds nothing leaves -1.\<close>

definition position_of :: "u8 list \<Rightarrow> nat \<Rightarrow> u8 \<Rightarrow> int" where
  "position_of sm n sid =
     (case find (\<lambda>i. sm ! i = sid) [1..<n] of None \<Rightarrow> -1 | Some i \<Rightarrow> int i)"

definition determine_interleave_internal :: "u8 list \<Rightarrow> nat \<Rightarrow> int" where
  "determine_interleave_internal sm n =
     (if n < 2 then 1
      else
        let first_sector_id = sm ! 0;
            next_logical_id = (if first_sector_id = 0 then 1 else first_sector_id + 1);
            physical_pos_next = position_of sm n next_logical_id
        in if physical_pos_next = -1 then
             (let wrap_around_id =
                    (if first_sector_id > 1
                     then fold (\<lambda>i min_id. if sm ! i < min_id then sm ! i else min_id) [0..<n] 255
                     else if first_sector_id = 0 then 0 else 1);
                  physical_pos_wrap = position_of sm n wrap_around_id
              in if physical_pos_wrap = -1 then 0 else physical_pos_wrap)
           else physical_pos_next)"

text \<open>
  The body of the loop for a track that was read successfully, in the source's three
  parts: the command line constraints (with whether one failed), the summary
  information, and the two sequence checks, which are skipped for the first track.
\<close>

definition constraint_checks :: "ImdChkOptions \<Rightarrow> ImdTrackInfo \<Rightarrow> ImdChkResults \<Rightarrow>
    ImdChkResults \<times> bool" where
  "constraint_checks options track r0 =
     (let con_cyl = (max_allowed_cyl options \<noteq> -1 \<and> uint (cyl track) > max_allowed_cyl options);
          con_head = (required_head options \<noteq> -1 \<and> uint (head track) \<noteq> required_head options);
          con_sectors = (max_allowed_sectors options \<noteq> -1 \<and>
                         uint (num_sectors track) > max_allowed_sectors options);
          r1 = (if con_cyl then fail CHECK_BIT_CON_CYL r0 else r0);
          r2 = (if con_head then fail CHECK_BIT_CON_HEAD r1 else r1);
          r3 = (if con_sectors then fail CHECK_BIT_CON_SECTORS r2 else r2)
      in (r3, con_cyl \<or> con_head \<or> con_sectors))"

definition update_summary :: "ImdTrackInfo \<Rightarrow> ImdChkResults \<Rightarrow> ImdChkResults" where
  "update_summary track r3 =
     (let r4 = (if head track = 0
                then (if uint (cyl track) > max_cyl_side0 r3
                      then r3\<lparr>max_cyl_side0 := uint (cyl track)\<rparr> else r3)
                else if head track = 1
                then (if uint (cyl track) > max_cyl_side1 r3
                      then r3\<lparr>max_cyl_side1 := uint (cyl track)\<rparr> else r3)
                else r3);
          r5 = (if uint (head track) > max_head_seen r4
                then r4\<lparr>max_head_seen := uint (head track)\<rparr> else r4)
      in if detected_interleave r5 = -1 \<and> num_sectors track > 0
         then r5\<lparr>detected_interleave :=
                determine_interleave_internal (smap track) (unat (num_sectors track))\<rparr>
         else r5)"

text \<open>
  The state the track loop of \<open>imdchk_check_file\<close> carries from one track to the next.
\<close>

record scan_state =
  results :: ImdChkResults
  last_cyl :: u8
  last_head :: u8
  first_track :: int

definition sequence_checks :: "scan_state \<Rightarrow> ImdTrackInfo \<Rightarrow> ImdChkResults \<Rightarrow> ImdChkResults" where
  "sequence_checks st track r6 =
     (let r7 = (if first_track st = 0 \<and> cyl track < last_cyl st
                then fail CHECK_BIT_SEQ_CYL_DEC r6 else r6)
      in if first_track st = 0 \<and> cyl track = last_cyl st \<and>
            head track \<le> last_head st \<and> \<not> (head track = 0 \<and> last_head st > 0)
         then fail CHECK_BIT_SEQ_HEAD_ORDER r7 else r7)"

text \<open>
  Each \<open>continue\<close> of the source is a branch that returns the state as it is at that
  point; \<open>last_cyl\<close>, \<open>last_head\<close> and \<open>first_track\<close> are assigned only after the
  sequence checks have let the track pass.
\<close>

definition check_track :: "ImdChkOptions \<Rightarrow> ImdTrackInfo \<Rightarrow> scan_state \<Rightarrow> scan_state" where
  "check_track options track st =
     (case constraint_checks options track
             ((results st)\<lparr>track_read_count := track_read_count (results st) + 1\<rparr>) of
        (r3, constraint_failed) \<Rightarrow>
          if constraint_failed \<and>
             error_mask options AND
               (CHECK_BIT_CON_CYL OR CHECK_BIT_CON_HEAD OR CHECK_BIT_CON_SECTORS) \<noteq> 0
          then st\<lparr>results := r3\<rparr>
          else
            let r8 = sequence_checks st track (update_summary track r3) in
            if first_track st = 0 \<and>
               (error_mask options AND (CHECK_BIT_SEQ_CYL_DEC OR CHECK_BIT_SEQ_HEAD_ORDER)) AND
                 check_failures_mask r8 \<noteq> 0
            then st\<lparr>results := r8\<rparr>
            else
              let r9 = check_smap_consistency_internal track r8;
                  st1 = st\<lparr>last_cyl := cyl track, last_head := head track, first_track := 0\<rparr>
              in if (error_mask options AND CHECK_BIT_DUPE_SID) AND check_failures_mask r9 \<noteq> 0
                 then st1\<lparr>results := r9\<rparr>
                 else st1\<lparr>results := check_sflag_consistency_and_stats_internal track r9\<rparr>)"

text \<open>
  The file's tracks reach the loop through \<open>ftell\<close> and
  \<open>imd_read_track_header_and_flags\<close>: the scanner sees the file as the sequence of what
  these return, up to the clean end of file that ends the list.
\<close>

datatype read_outcome = FtellFailed | ReadFailed | ReadOk ImdTrackInfo

fun scan_tracks :: "ImdChkOptions \<Rightarrow> read_outcome list \<Rightarrow> scan_state \<Rightarrow> scan_state" where
  "scan_tracks options [] st = st"
| "scan_tracks options (FtellFailed # rest) st =
     (let st1 = st\<lparr>results := fail CHECK_BIT_FTELL (results st)\<rparr> in
      if error_mask options AND CHECK_BIT_FTELL \<noteq> 0 then st1
      else scan_tracks options rest st1)"
| "scan_tracks options (ReadFailed # rest) st =
     (let st1 = st\<lparr>results := fail CHECK_BIT_TRACK_READ (results st)\<rparr> in
      if error_mask options AND CHECK_BIT_TRACK_READ \<noteq> 0 then st1
      else scan_tracks options rest st1)"
| "scan_tracks options (ReadOk track # rest) st =
     scan_tracks options rest (check_track options track st)"

definition initial_results :: ImdChkResults where
  "initial_results =
     \<lparr> check_failures_mask = 0, total_sector_count = 0, unavailable_sector_count = 0,
       deleted_sector_count = 0, compressed_sector_count = 0, data_error_sector_count = 0,
       track_read_count = 0, max_cyl_side0 = -1, max_cyl_side1 = -1, max_head_seen = -1,
       detected_interleave = -1 \<rparr>"

text \<open>
  \<open>imdchk_check_file\<close> on a file that could be opened: \<open>header_ok\<close> and \<open>comment_ok\<close>
  say whether \<open>imd_read_file_header\<close> and \<open>imd_skip_comment_block\<close> returned 0. The
  result is the return value and the results structure.
\<close>

definition imdchk_check_file :: "ImdChkOptions \<Rightarrow> bool \<Rightarrow> bool \<Rightarrow> read_outcome list \<Rightarrow>
    int \<times> ImdChkResults" where
  "imdchk_check_file options header_ok comment_ok outcomes =
     (let r0 = (if header_ok then initial_results else fail CHECK_BIT_HEADER initial_results) in
      if \<not> header_ok \<and> error_mask options AND CHECK_BIT_HEADER \<noteq> 0 then (-1, r0)
      else
        let r1 = (if comment_ok then r0 else fail CHECK_BIT_COMMENT_TERM r0) in
        if \<not> comment_ok \<and> error_mask options AND CHECK_BIT_COMMENT_TERM \<noteq> 0 then (-1, r1)
        else
          let st = scan_tracks options outcomes
                     \<lparr> results = r1, last_cyl = 0, last_head = 1, first_track = 1 \<rparr>;
              r2 = results st
          in (0, if max_head_seen r2 > 0 \<and> max_cyl_side0 r2 \<noteq> -1 \<and> max_cyl_side1 r2 \<noteq> -1 \<and>
                    max_cyl_side0 r2 \<noteq> max_cyl_side1 r2
                 then fail CHECK_BIT_DIFF_MAX_CYL r2 else r2))"

section \<open>Vocabulary of the properties\<close>

text \<open>
  The notions the properties below are stated with. They are not part of the program.
\<close>

text \<open>The \<open>SeqHeadOrder\<close> bit of a results structure.\<close>

definition seq_bit :: "ImdChkResults \<Rightarrow> bool" where
  "seq_bit r \<longleftrightarrow> check_failures_mask r AND CHECK_BIT_SEQ_HEAD_ORDER \<noteq> 0"

text \<open>
  No track is skipped before the sequence checks: no constraint is enabled, or none of
  the constraint bits is in the error mask; and neither sequence bit is in the error mask.
  The default options (\<open>DEFAULT_ERROR_MASK\<close>, all constraints -1) are of this kind.
\<close>

definition no_track_skipped :: "ImdChkOptions \<Rightarrow> bool" where
  "no_track_skipped options \<longleftrightarrow>
     ((max_allowed_cyl options = -1 \<and> required_head options = -1 \<and>
       max_allowed_sectors options = -1) \<or>
      error_mask options AND
        (CHECK_BIT_CON_CYL OR CHECK_BIT_CON_HEAD OR CHECK_BIT_CON_SECTORS) = 0) \<and>
     error_mask options AND (CHECK_BIT_SEQ_CYL_DEC OR CHECK_BIT_SEQ_HEAD_ORDER) = 0"

text \<open>
  What the scanner flags between a track and the one scanned before it: same cylinder,
  a head that does not exceed the previous head, and not the step from a non-zero head
  back to head 0.
\<close>

definition head_order_violation :: "ImdTrackInfo \<Rightarrow> ImdTrackInfo \<Rightarrow> bool" where
  "head_order_violation prev t \<longleftrightarrow>
     cyl t = cyl prev \<and> head t \<le> head prev \<and> \<not> (head t = 0 \<and> head prev > 0)"

text \<open>
  The tracks read successfully before the scan stops: a failed \<open>ftell\<close> or track read
  ends the scan when its bit is in the error mask.
\<close>

fun tracks_scanned :: "ImdChkOptions \<Rightarrow> read_outcome list \<Rightarrow> ImdTrackInfo list" where
  "tracks_scanned options [] = []"
| "tracks_scanned options (FtellFailed # rest) =
     (if error_mask options AND CHECK_BIT_FTELL \<noteq> 0 then [] else tracks_scanned options rest)"
| "tracks_scanned options (ReadFailed # rest) =
     (if error_mask options AND CHECK_BIT_TRACK_READ \<noteq> 0 then []
      else tracks_scanned options rest)"
| "tracks_scanned options (ReadOk track # rest) = track # tracks_scanned options rest"

text \<open>
  The key an image's tracks are ordered by, its strict lexicographic order, and the
  sorted invariant: strictly ascending keys, hence no two tracks with the same key.
\<close>

definition ch_key :: "ImdTrackInfo \<Rightarrow> u8 \<times> u8" where
  "ch_key t = (cyl t, head t)"

definition key_less :: "u8 \<times> u8 \<Rightarrow> u8 \<times> u8 \<Rightarrow> bool" where
  "key_less a b \<longleftrightarrow> fst a < fst b \<or> (fst a = fst b \<and> snd a < snd b)"

definition tracks_sorted :: "ImdImageFile \<Rightarrow> bool" where
  "tracks_sorted imdf \<longleftrightarrow> sorted_wrt key_less (map ch_key (tracks imdf))"

definition ch_keys :: "ImdImageFile \<Rightarrow> (u8 \<times> u8) list" where
  "ch_keys imdf = map ch_key (tracks imdf)"

text \<open>
  Example inputs: a loaded track without sectors (mode 5, sector size code 0), and an
  image of given tracks with no geometry limits, not write-protected.
\<close>

definition example_track :: "u8 \<Rightarrow> u8 \<Rightarrow> ImdTrackInfo" where
  "example_track c h = zero_track\<lparr>mode := 5, cyl := c, head := h, sector_size := 128, loaded := 1\<rparr>"

definition example_image :: "ImdTrackInfo list \<Rightarrow> ImdImageFile" where
  "example_image ts =
     \<lparr> file_bytes = [], write_protected = 0, read_only_open = 0,
       header_info = zero_header_info\<lparr>version := ''1.19''\<rparr>, comment = [],
       tracks = ts, max_cyl = 0xFF, max_head = 0xFF, max_spt = 0xFF \<rparr>"

text \<open>A call returned its success value.\<close>

definition returned_ok :: "('e + 'a) option \<Rightarrow> bool" where
  "returned_ok r = (case r of Some (Inr x) \<Rightarrow> True | _ \<Rightarrow> False)"

text \<open>
  The in-memory sector flags of track \<open>i\<close> of an image, and an example track of two
  128-byte sectors with given sector map, flags and data.
\<close>

definition track_sflags :: "nat \<Rightarrow> ImdImageFile \<Rightarrow> u8 list" where
  "track_sflags i imdf = take (unat (num_sectors (tracks imdf ! i))) (sflag (tracks imdf ! i))"

definition example_track_2x128 :: "u8 list \<Rightarrow> u8 list \<Rightarrow> u8 list \<Rightarrow> ImdTrackInfo" where
  "example_track_2x128 sm sf d =
     zero_track\<lparr>mode := 5, num_sectors := 2, sector_size := 128,
       smap := memcpy_prefix (replicate 256 0) sm 2,
       sflag := memcpy_prefix (replicate 256 0) sf 2,
       data := Some d, data_size := 256, loaded := 1\<rparr>"






text \<open>
  The sector map of a track up to its number of sectors, and the image layer's options
  for a new track: force-compress, everything else as in the default.
\<close>

definition track_smap :: "ImdTrackInfo \<Rightarrow> u8 list" where
  "track_smap t = take (unat (num_sectors t)) (smap t)"

definition force_compress_opts :: ImdWriteOpts where
  "force_compress_opts =
     default_libimdf_write_opts\<lparr>compression_mode := IMD_COMPRESSION_FORCE_COMPRESS\<rparr>"

text \<open>
  The best interleave as the description has it. The logical IDs of a track are the first
  \<open>num_sectors\<close> entries of its sector map. The position of an ID is the last index that
  holds it (later duplicates overwrite earlier ones); the forward distance from position
  \<open>p\<close> to position \<open>q\<close> is taken modulo the number of sectors; \<open>pair_distance ids i\<close> is
  the distance from the \<open>i\<close>-th ID in ascending order to its successor, the last one
  wrapping to the first; \<open>distance_tally ids d\<close> counts the pairs at distance \<open>d\<close>.
\<close>

definition last_position :: "u8 list \<Rightarrow> u8 \<Rightarrow> nat" where
  "last_position ids a = last (filter (\<lambda>i. ids ! i = a) [0..<length ids])"

definition forward_distance :: "nat \<Rightarrow> nat \<Rightarrow> nat \<Rightarrow> nat" where
  "forward_distance n p q = (q + n - p) mod n"

definition pair_distance :: "u8 list \<Rightarrow> nat \<Rightarrow> nat" where
  "pair_distance ids i =
     forward_distance (length ids) (last_position ids (sort ids ! i))
       (last_position ids (sort ids ! ((i + 1) mod length ids)))"

definition distance_tally :: "u8 list \<Rightarrow> nat \<Rightarrow> nat" where
  "distance_tally ids d = length (filter (\<lambda>i. pair_distance ids i = d) [0..<length ids])"

definition example_track_8 :: "u8 list \<Rightarrow> ImdTrackInfo" where
  "example_track_8 sm =
     zero_track\<lparr>mode := 5, num_sectors := 8, sector_size := 128,
       smap := memcpy_prefix (replicate 256 0) sm 8\<rparr>"

section \<open>Sector data record predicates\<close>

lemma data_code_cases:
  assumes "IMD_SDR_HAS_DATA t"
  shows "t = 1 \<or> t = 2 \<or> t = 3 \<or> t = 4 \<or> t = 5 \<or> t = 6 \<or> t = 7 \<or> t = 8"
proof -
  from assms have "1 \<le> unat t \<and> unat t \<le> 8"
    unfolding IMD_SDR_HAS_DATA_def word_le_nat_alt by simp
  then have "unat t = 1 \<or> unat t = 2 \<or> unat t = 3 \<or> unat t = 4 \<or> unat t = 5 \<or>
             unat t = 6 \<or> unat t = 7 \<or> unat t = 8"
    by arith
  moreover have "\<And>k. unat t = k \<Longrightarrow> t = of_nat k" by auto
  ultimately show ?thesis by fastforce
qed

text \<open>
  On the data-bearing codes 0x01..0x08 the two status macros pick out the codes the
  header's comments list: DAM for 3, 4, 7, 8 and ERR for 5, 6, 7, 8.
\<close>

lemma sflag_predicates_on_data_codes:
  assumes "IMD_SDR_HAS_DATA t"
  shows "(IMD_SDR_HAS_DAM t \<longleftrightarrow> t \<in> {0x03, 0x04, 0x07, 0x08}) \<and>
         (IMD_SDR_HAS_ERR t \<longleftrightarrow> t \<in> {0x05, 0x06, 0x07, 0x08})"
  using data_code_cases[OF assms]
  by (elim disjE) (simp_all add: IMD_SDR_HAS_DAM_def IMD_SDR_HAS_ERR_def)

text \<open>
  C3. The claim: for every sflag in 0x00..0x08, \<open>has_dam\<close> holds exactly for the codes
  0x03, 0x04, 0x07, 0x08 and \<open>has_err\<close> exactly for 0x05, 0x06, 0x07, 0x08, both being
  false for 0x00. The macros \<open>IMD_SDR_HAS_DAM\<close> and \<open>IMD_SDR_HAS_ERR\<close> subtract 1 before
  masking, so for the unavailable code 0x00 they mask -1 and both come out true.
\<close>

theorem has_dam_err_at_unavailable:
  "IMD_SDR_HAS_DAM 0x00 \<and> IMD_SDR_HAS_ERR 0x00"
  by (simp add: IMD_SDR_HAS_DAM_def IMD_SDR_HAS_ERR_def)

section \<open>Loading a track without sectors\<close>

lemma sector_size_lookup_nonzero:
  "i < SECTOR_SIZE_LOOKUP_COUNT \<Longrightarrow> SECTOR_SIZE_LOOKUP ! i \<noteq> 0"
  unfolding SECTOR_SIZE_LOOKUP_COUNT_def SECTOR_SIZE_LOOKUP_def
  by (auto simp: nth_Cons' less_Suc_eq numeral_eq_Suc)

lemma alloc_zero_sectors:
  assumes "data t = None" and "unat (sector_size_code t) < SECTOR_SIZE_LOOKUP_COUNT"
    and "num_sectors t = 0"
  shows "imd_alloc_track_data t =
           Inr (t\<lparr>sector_size := SECTOR_SIZE_LOOKUP ! unat (sector_size_code t),
                  data := None, data_size := 0\<rparr>)"
  using assms sector_size_lookup_nonzero[of "unat (sector_size_code t)"]
  by (simp add: imd_alloc_track_data_def imd_get_sector_size_def Let_def)

text \<open>
  C10. If the next track record has a \<open>num_sectors\<close> byte of 0 and valid mode, head and
  sector size code bytes, \<open>imd_load_track\<close> returns 1 and the track is marked
  \<open>loaded = 1\<close> with \<open>data = NULL\<close> and \<open>data_size = 0\<close>; the stream is left just after
  the five header bytes.
\<close>

theorem load_track_zero_sectors:
  assumes m: "unat mode_b < LIBIMD_NUM_MODES"
    and h: "head_byte AND IMD_HFLAG_HEAD_MASK \<le> 1"
    and c: "unat ssize_b < SECTOR_SIZE_LOOKUP_COUNT"
  shows "\<exists>t. imd_load_track (mode_b # cyl_b # head_byte # 0 # ssize_b # rest) fill_byte
               = Inr (Some t, rest) \<and>
             load_return_value
               (imd_load_track (mode_b # cyl_b # head_byte # 0 # ssize_b # rest) fill_byte) = 1 \<and>
             loaded t = 1 \<and> data t = None \<and> data_size t = 0 \<and> num_sectors t = 0"
proof -
  define t0 where "t0 = zero_track\<lparr>mode := mode_b, cyl := cyl_b, num_sectors := 0,
                      sector_size_code := ssize_b,
                      head := head_byte AND IMD_HFLAG_HEAD_MASK,
                      hflag := head_byte AND IMD_HFLAG_MASK\<rparr>"
  define t1 where "t1 = t0\<lparr>sector_size := SECTOR_SIZE_LOOKUP ! unat (sector_size_code t0)\<rparr>"
  have sz: "sector_size t1 \<noteq> 0"
    using sector_size_lookup_nonzero[OF c] by (simp add: t1_def t0_def)
  have al: "imd_alloc_track_data t1 =
      Inr (t1\<lparr>sector_size := SECTOR_SIZE_LOOKUP ! unat (sector_size_code t1),
              data := None, data_size := 0\<rparr>)"
    by (rule alloc_zero_sectors) (use c in \<open>simp_all add: t1_def t0_def zero_track_def\<close>)
  have valid: "\<not> (unat (mode t0) \<ge> LIBIMD_NUM_MODES \<or> head t0 > 1 \<or>
          unat (sector_size_code t0) \<ge> SECTOR_SIZE_LOOKUP_COUNT)"
    using m h c by (simp add: t0_def linorder_not_le linorder_not_less)
  have n0: "num_sectors t1 = 0" by (simp add: t1_def t0_def)
  have "imd_load_track (mode_b # cyl_b # head_byte # 0 # ssize_b # rest) fill_byte =
      Inr (Some (t1\<lparr>sector_size := SECTOR_SIZE_LOOKUP ! unat (sector_size_code t1),
              data := None, data_size := 0, loaded := 1\<rparr>), rest)"
    unfolding imd_load_track_def read_byte_def
    apply (simp only: list.case option.case prod.case Let_def)
    apply (fold t0_def)
    apply (simp only: valid if_False)
    apply (fold t1_def)
    apply (simp add: sz n0 al LIBIMD_MAX_SECTORS_PER_TRACK_def)
    done
  then show ?thesis
    by (simp add: load_return_value_def n0)
qed

theorem load_track_zero_sectors_witness:
  "unat (5 :: u8) < LIBIMD_NUM_MODES \<and> (0x81 :: u8) AND IMD_HFLAG_HEAD_MASK \<le> 1 \<and>
   unat (2 :: u8) < SECTOR_SIZE_LOOKUP_COUNT \<and>
   (\<exists>t. imd_load_track [5, 3, 0x81, 0, 2, 9] 0xE5 = Inr (Some t, [9]) \<and>
        load_return_value (imd_load_track [5, 3, 0x81, 0, 2, 9] 0xE5) = 1 \<and>
        loaded t = 1 \<and> data t = None \<and> data_size t = 0 \<and> num_sectors t = 0)"
proof -
  have a: "unat (5 :: u8) < LIBIMD_NUM_MODES" by (simp add: LIBIMD_NUM_MODES_def)
  have b: "(0x81 :: u8) AND IMD_HFLAG_HEAD_MASK \<le> 1" by (simp add: IMD_HFLAG_HEAD_MASK_def)
  have c: "unat (2 :: u8) < SECTOR_SIZE_LOOKUP_COUNT"
    by (simp add: SECTOR_SIZE_LOOKUP_COUNT_def SECTOR_SIZE_LOOKUP_def)
  show ?thesis
    using a b c load_track_zero_sectors [OF a b c, of 3 "[9]" "0xE5"] by simp
qed

section \<open>The scanner's head sequence check\<close>

lemma seq_bit_fail:
  "seq_bit (fail b r) \<longleftrightarrow> seq_bit r \<or> b AND CHECK_BIT_SEQ_HEAD_ORDER \<noteq> 0"
  by (auto simp add: seq_bit_def fail_def bit.conj_disj_distrib2 or_eq_0_iff)

lemma seq_bit_fail_other:
  "b AND CHECK_BIT_SEQ_HEAD_ORDER = 0 \<Longrightarrow> seq_bit (fail b r) = seq_bit r"
  by (simp add: seq_bit_fail)

lemma other_bits [simp]:
  "CHECK_BIT_FTELL AND CHECK_BIT_SEQ_HEAD_ORDER = 0"
  "CHECK_BIT_TRACK_READ AND CHECK_BIT_SEQ_HEAD_ORDER = 0"
  "CHECK_BIT_HEADER AND CHECK_BIT_SEQ_HEAD_ORDER = 0"
  "CHECK_BIT_COMMENT_TERM AND CHECK_BIT_SEQ_HEAD_ORDER = 0"
  "CHECK_BIT_CON_CYL AND CHECK_BIT_SEQ_HEAD_ORDER = 0"
  "CHECK_BIT_CON_HEAD AND CHECK_BIT_SEQ_HEAD_ORDER = 0"
  "CHECK_BIT_CON_SECTORS AND CHECK_BIT_SEQ_HEAD_ORDER = 0"
  "CHECK_BIT_SEQ_CYL_DEC AND CHECK_BIT_SEQ_HEAD_ORDER = 0"
  "CHECK_BIT_DUPE_SID AND CHECK_BIT_SEQ_HEAD_ORDER = 0"
  "CHECK_BIT_INV_SFLAG_VALUE AND CHECK_BIT_SEQ_HEAD_ORDER = 0"
  "CHECK_BIT_SFLAG_DATA_ERR AND CHECK_BIT_SEQ_HEAD_ORDER = 0"
  "CHECK_BIT_SFLAG_DEL_DAM AND CHECK_BIT_SEQ_HEAD_ORDER = 0"
  "CHECK_BIT_DIFF_MAX_CYL AND CHECK_BIT_SEQ_HEAD_ORDER = 0"
  "CHECK_BIT_SEQ_HEAD_ORDER \<noteq> 0"
  by (simp_all add: CHECK_BIT_FTELL_def CHECK_BIT_TRACK_READ_def CHECK_BIT_HEADER_def
      CHECK_BIT_COMMENT_TERM_def CHECK_BIT_CON_CYL_def CHECK_BIT_CON_HEAD_def
      CHECK_BIT_CON_SECTORS_def CHECK_BIT_SEQ_CYL_DEC_def CHECK_BIT_DUPE_SID_def
      CHECK_BIT_INV_SFLAG_VALUE_def CHECK_BIT_SFLAG_DATA_ERR_def CHECK_BIT_SFLAG_DEL_DAM_def
      CHECK_BIT_DIFF_MAX_CYL_def CHECK_BIT_SEQ_HEAD_ORDER_def)

lemma seq_bit_updates [simp]:
  "seq_bit (r\<lparr>track_read_count := a\<rparr>) = seq_bit r"
  "seq_bit (r\<lparr>max_cyl_side0 := a\<rparr>) = seq_bit r"
  "seq_bit (r\<lparr>max_cyl_side1 := a\<rparr>) = seq_bit r"
  "seq_bit (r\<lparr>max_head_seen := a\<rparr>) = seq_bit r"
  "seq_bit (r\<lparr>detected_interleave := a\<rparr>) = seq_bit r"
  "seq_bit (r\<lparr>total_sector_count := a\<rparr>) = seq_bit r"
  "seq_bit (r\<lparr>unavailable_sector_count := a\<rparr>) = seq_bit r"
  "seq_bit (r\<lparr>deleted_sector_count := a\<rparr>) = seq_bit r"
  "seq_bit (r\<lparr>compressed_sector_count := a\<rparr>) = seq_bit r"
  "seq_bit (r\<lparr>data_error_sector_count := a\<rparr>) = seq_bit r"
  by (simp_all add: seq_bit_def)

lemma seq_bit_smap_fold:
  "seq_bit (snd (fold (\<lambda>i (seen_ids, res).
                   let current_id = sm ! i in
                   if seen_get seen_ids current_id then (seen_ids, fail CHECK_BIT_DUPE_SID res)
                   else (seen_set seen_ids current_id, res)) xs (seen, r))) = seq_bit r"
  by (induction xs arbitrary: seen r) (simp_all add: Let_def seq_bit_fail)

lemma seq_bit_check_smap [simp]:
  "seq_bit (check_smap_consistency_internal track r) = seq_bit r"
  by (simp add: check_smap_consistency_internal_def seq_bit_smap_fold)

lemma seq_bit_stats_step:
  "seq_bit (fst (sflag_stats_step flag (r, a, b))) = seq_bit r"
  by (simp add: sflag_stats_step_def Let_def seq_bit_fail)

lemma seq_bit_stats_fold:
  "seq_bit (fst (fold (\<lambda>i. sflag_stats_step (sf ! i)) xs st)) = seq_bit (fst st)"
proof (induction xs arbitrary: st)
  case Nil
  then show ?case by simp
next
  case (Cons x xs)
  obtain r a b where st: "st = (r, a, b)" by (cases st) auto
  show ?case using Cons[of "sflag_stats_step (sf ! x) st"] seq_bit_stats_step[of "sf ! x" r a b]
    by (simp add: st)
qed

lemma seq_bit_check_sflag [simp]:
  "seq_bit (check_sflag_consistency_and_stats_internal track r) = seq_bit r"
proof -
  let ?res0 = "r\<lparr>total_sector_count := total_sector_count r + uint (num_sectors track)\<rparr>"
  let ?f = "fold (\<lambda>i. sflag_stats_step (sflag track ! i)) [0..<unat (num_sectors track)]
              (?res0, False, False)"
  obtain res a b where f: "?f = (res, a, b)" by (cases ?f) auto
  have "seq_bit res = seq_bit r"
    using seq_bit_stats_fold[of "sflag track" "[0..<unat (num_sectors track)]" "(?res0, False, False)"] f
    by simp
  then show ?thesis
    by (simp add: check_sflag_consistency_and_stats_internal_def Let_def f seq_bit_fail)
qed

lemma seq_bit_constraint_checks [simp]:
  "seq_bit (fst (constraint_checks options t r)) = seq_bit r"
  by (simp add: constraint_checks_def Let_def seq_bit_fail)

lemma constraint_checks_disabled:
  "max_allowed_cyl options = -1 \<Longrightarrow> required_head options = -1 \<Longrightarrow>
   max_allowed_sectors options = -1 \<Longrightarrow> \<not> snd (constraint_checks options t r)"
  by (simp add: constraint_checks_def Let_def)

lemma seq_bit_update_summary [simp]:
  "seq_bit (update_summary t r) = seq_bit r"
  by (simp add: update_summary_def Let_def)

lemma seq_bit_sequence_checks:
  "seq_bit (sequence_checks st t r) \<longleftrightarrow>
     seq_bit r \<or>
     (first_track st = 0 \<and> cyl t = last_cyl st \<and> head t \<le> last_head st \<and>
      \<not> (head t = 0 \<and> last_head st > 0))"
  by (auto simp: sequence_checks_def Let_def seq_bit_fail)

lemma check_track_seq:
  assumes "no_track_skipped options"
  shows "last_cyl (check_track options t st) = cyl t \<and>
         last_head (check_track options t st) = head t \<and>
         first_track (check_track options t st) = 0 \<and>
         (seq_bit (results (check_track options t st)) \<longleftrightarrow>
            seq_bit (results st) \<or>
            (first_track st = 0 \<and> cyl t = last_cyl st \<and> head t \<le> last_head st \<and>
             \<not> (head t = 0 \<and> last_head st > 0)))"
proof -
  let ?r0 = "(results st)\<lparr>track_read_count := track_read_count (results st) + 1\<rparr>"
  obtain r3 cf where cc: "constraint_checks options t ?r0 = (r3, cf)"
    by (cases "constraint_checks options t ?r0") auto
  have r3: "seq_bit r3 = seq_bit (results st)"
    using seq_bit_constraint_checks[of options t ?r0] cc by simp
  have seq0: "error_mask options AND (CHECK_BIT_SEQ_CYL_DEC OR CHECK_BIT_SEQ_HEAD_ORDER) = 0"
    using assms by (simp add: no_track_skipped_def)
  have con: "\<not> (cf \<and> error_mask options AND
             (CHECK_BIT_CON_CYL OR CHECK_BIT_CON_HEAD OR CHECK_BIT_CON_SECTORS) \<noteq> 0)"
    using assms constraint_checks_disabled[of options t ?r0] cc
    by (auto simp: no_track_skipped_def)
  show ?thesis
    unfolding check_track_def cc prod.case Let_def
    using con by (auto simp: seq0 seq_bit_sequence_checks r3)
qed

lemma scan_tracks_seq:
  assumes "no_track_skipped options"
  shows "seq_bit (results (scan_tracks options outcomes st)) \<longleftrightarrow>
           seq_bit (results st) \<or>
           (\<exists>i. Suc i < length (tracks_scanned options outcomes) \<and>
                head_order_violation (tracks_scanned options outcomes ! i)
                  (tracks_scanned options outcomes ! Suc i)) \<or>
           (first_track st = 0 \<and> tracks_scanned options outcomes \<noteq> [] \<and>
            cyl (hd (tracks_scanned options outcomes)) = last_cyl st \<and>
            head (hd (tracks_scanned options outcomes)) \<le> last_head st \<and>
            \<not> (head (hd (tracks_scanned options outcomes)) = 0 \<and> last_head st > 0))"
proof (induction outcomes arbitrary: st)
  case Nil
  then show ?case by simp
next
  case (Cons x rest)
  show ?case
  proof (cases x)
    case FtellFailed
    then show ?thesis using Cons[of "st\<lparr>results := fail CHECK_BIT_FTELL (results st)\<rparr>"]
      by (simp add: Let_def seq_bit_fail)
  next
    case ReadFailed
    then show ?thesis using Cons[of "st\<lparr>results := fail CHECK_BIT_TRACK_READ (results st)\<rparr>"]
      by (simp add: Let_def seq_bit_fail)
  next
    case (ReadOk t)
    let ?ts = "tracks_scanned options rest"
    note ct = check_track_seq[OF assms, of t st]
    have adj: "(\<exists>i. Suc i < length (t # ?ts) \<and>
                  head_order_violation ((t # ?ts) ! i) ((t # ?ts) ! Suc i)) \<longleftrightarrow>
               (?ts \<noteq> [] \<and> head_order_violation t (hd ?ts)) \<or>
               (\<exists>i. Suc i < length ?ts \<and> head_order_violation (?ts ! i) (?ts ! Suc i))"
      (is "?L \<longleftrightarrow> ?R")
    proof
      assume ?L
      then obtain i where i: "Suc i < length (t # ?ts)"
        "head_order_violation ((t # ?ts) ! i) ((t # ?ts) ! Suc i)" by blast
      show ?R
      proof (cases i)
        case 0
        with i show ?thesis by (cases ?ts) auto
      next
        case (Suc j)
        with i show ?thesis by auto
      qed
    next
      assume ?R
      then show ?L
      proof
        assume "?ts \<noteq> [] \<and> head_order_violation t (hd ?ts)"
        then have "Suc 0 < length (t # ?ts) \<and>
            head_order_violation ((t # ?ts) ! 0) ((t # ?ts) ! Suc 0)"
          by (cases ?ts) auto
        then show ?L by blast
      next
        assume "\<exists>i. Suc i < length ?ts \<and> head_order_violation (?ts ! i) (?ts ! Suc i)"
        then obtain i where "Suc i < length ?ts" "head_order_violation (?ts ! i) (?ts ! Suc i)"
          by blast
        then have "Suc (Suc i) < length (t # ?ts) \<and>
            head_order_violation ((t # ?ts) ! Suc i) ((t # ?ts) ! Suc (Suc i))" by simp
        then show ?L by blast
      qed
    qed
    show ?thesis
      using Cons[of "check_track options t st"] ct adj ReadOk
      by (auto simp: head_order_violation_def)
  qed
qed

lemma seq_bit_initial: "\<not> seq_bit initial_results"
  by (simp add: seq_bit_def initial_results_def)

text \<open>
  C4, as amended. When no track is skipped before the sequence checks, the scan sets the
  \<open>SeqHeadOrder\<close> bit exactly when it ran (return value 0) and some successfully read
  track other than the first has the cylinder of the track read before it and a head that
  does not exceed that track's head, unless the head went from non-zero back to 0: the
  step back to head 0 is not flagged on the same cylinder either.
\<close>

theorem seq_head_order_exact:
  assumes "no_track_skipped options"
  shows "check_failures_mask (snd (imdchk_check_file options header_ok comment_ok outcomes))
           AND CHECK_BIT_SEQ_HEAD_ORDER \<noteq> 0 \<longleftrightarrow>
         fst (imdchk_check_file options header_ok comment_ok outcomes) = 0 \<and>
         (\<exists>i. Suc i < length (tracks_scanned options outcomes) \<and>
              head_order_violation (tracks_scanned options outcomes ! i)
                (tracks_scanned options outcomes ! Suc i))"
proof -
  have scan: "\<And>r. seq_bit (results (scan_tracks options outcomes
                 \<lparr> results = r, last_cyl = 0, last_head = 1, first_track = 1 \<rparr>)) \<longleftrightarrow>
             seq_bit r \<or>
             (\<exists>i. Suc i < length (tracks_scanned options outcomes) \<and>
                  head_order_violation (tracks_scanned options outcomes ! i)
                    (tracks_scanned options outcomes ! Suc i))"
    by (simp add: scan_tracks_seq[OF assms])
  show ?thesis
    unfolding seq_bit_def[symmetric] imdchk_check_file_def Let_def
    by (auto simp: scan seq_bit_fail seq_bit_initial)
qed

theorem seq_head_order_exact_witness:
  "no_track_skipped \<lparr> error_mask = DEFAULT_ERROR_MASK, max_allowed_cyl = -1,
       required_head = -1, max_allowed_sectors = -1 \<rparr> \<and>
   check_failures_mask (snd (imdchk_check_file
       \<lparr> error_mask = DEFAULT_ERROR_MASK, max_allowed_cyl = -1,
         required_head = -1, max_allowed_sectors = -1 \<rparr> True True
       [ReadOk (zero_track\<lparr>cyl := 3\<rparr>), ReadOk (zero_track\<lparr>cyl := 3\<rparr>)]))
     AND CHECK_BIT_SEQ_HEAD_ORDER \<noteq> 0"
proof -
  let ?o = "\<lparr> error_mask = DEFAULT_ERROR_MASK, max_allowed_cyl = -1,
       required_head = -1, max_allowed_sectors = -1 \<rparr>"
  let ?ts = "[ReadOk (zero_track\<lparr>cyl := 3\<rparr>), ReadOk (zero_track\<lparr>cyl := 3\<rparr>)]"
  have h: "no_track_skipped ?o"
    by (simp add: no_track_skipped_def DEFAULT_ERROR_MASK_def CHECK_BIT_HEADER_def
        CHECK_BIT_COMMENT_TERM_def CHECK_BIT_TRACK_READ_def CHECK_BIT_FTELL_def
        CHECK_BIT_CON_CYL_def CHECK_BIT_CON_HEAD_def CHECK_BIT_CON_SECTORS_def
        CHECK_BIT_DUPE_SID_def CHECK_BIT_INV_SFLAG_VALUE_def CHECK_BIT_SEQ_CYL_DEC_def
        CHECK_BIT_SEQ_HEAD_ORDER_def)
  have r: "fst (imdchk_check_file ?o True True ?ts) = 0"
    by (simp add: imdchk_check_file_def Let_def)
  have v: "Suc 0 < length (tracks_scanned ?o ?ts) \<and>
           head_order_violation (tracks_scanned ?o ?ts ! 0) (tracks_scanned ?o ?ts ! Suc 0)"
    by (simp add: head_order_violation_def)
  show ?thesis
    using h r v seq_head_order_exact [OF h, of True True ?ts] by blast
qed

text \<open>
  The claim as stated fails: cylinder 3 head 1 followed by cylinder 3 head 0 is a track
  with the previous track's cylinder and a head that does not exceed the previous head,
  and the bit stays clear.
\<close>

theorem seq_head_order_counterexample:
  "check_failures_mask (snd (imdchk_check_file
       \<lparr> error_mask = DEFAULT_ERROR_MASK, max_allowed_cyl = -1,
         required_head = -1, max_allowed_sectors = -1 \<rparr> True True
       [ReadOk (zero_track\<lparr>cyl := 3, head := 1\<rparr>), ReadOk (zero_track\<lparr>cyl := 3, head := 0\<rparr>)]))
     AND CHECK_BIT_SEQ_HEAD_ORDER = 0 \<and>
   cyl (zero_track\<lparr>cyl := 3, head := 0\<rparr>) = cyl (zero_track\<lparr>cyl := 3, head := 1\<rparr>) \<and>
   \<not> head (zero_track\<lparr>cyl := 3, head := 0\<rparr>) > head (zero_track\<lparr>cyl := 3, head := 1\<rparr>)"
  by code_simp

section \<open>The sorted invariant of the image\<close>

lemma returned_ok_result: "returned_ok r \<Longrightarrow> \<exists>x. r = Some (Inr x)"
  by (auto simp: returned_ok_def split: option.splits sum.splits)

lemma key_less_trans: "key_less a b \<Longrightarrow> key_less b c \<Longrightarrow> key_less a c"
  by (auto simp: key_less_def)

lemma key_less_total: "\<not> key_less a b \<Longrightarrow> a \<noteq> b \<Longrightarrow> key_less b a"
  by (cases a; cases b) (auto simp: key_less_def)

lemma key_less_irrefl: "\<not> key_less a a"
  by (simp add: key_less_def)

lemma find_insertion_loop_spec:
  assumes "sorted_wrt key_less (map ch_key ts)"
    and "low \<le> high" and "high \<le> length ts"
    and "\<forall>i<low. key_less (ch_key (ts ! i)) (c, h)"
    and "\<forall>i. high \<le> i \<and> i < length ts \<longrightarrow> \<not> key_less (ch_key (ts ! i)) (c, h)"
  shows "find_insertion_loop ts c h low high \<le> length ts \<and>
         (\<forall>i<find_insertion_loop ts c h low high. key_less (ch_key (ts ! i)) (c, h)) \<and>
         (\<forall>i. find_insertion_loop ts c h low high \<le> i \<and> i < length ts \<longrightarrow>
              \<not> key_less (ch_key (ts ! i)) (c, h))"
  using assms
proof (induction ts c h low high rule: find_insertion_loop.induct)
  case (1 ts c h low high)
  let ?mid = "low + (high - low) div 2"
  show ?case
  proof (cases "low < high")
    case False
    with "1.prems" have "low = high" by simp
    moreover have "find_insertion_loop ts c h low high = low"
      using False by (subst find_insertion_loop.simps) simp
    ultimately show ?thesis using "1.prems" by simp
  next
    case True
    then have mid: "low \<le> ?mid" "?mid < high" by auto
    then have midlen: "?mid < length ts" using "1.prems" by simp
    have srt: "\<And>i j. i < j \<Longrightarrow> j < length ts \<Longrightarrow> key_less (ch_key (ts ! i)) (ch_key (ts ! j))"
      using "1.prems"(1) by (simp add: sorted_wrt_iff_nth_less)
    show ?thesis
    proof (cases "key_less (ch_key (ts ! ?mid)) (c, h)")
      case lt: True
      then have c1: "cyl (ts ! ?mid) < c \<or> (cyl (ts ! ?mid) = c \<and> head (ts ! ?mid) < h)"
        by (simp add: key_less_def ch_key_def)
      have below: "\<forall>i<?mid + 1. key_less (ch_key (ts ! i)) (c, h)"
      proof (intro allI impI)
        fix i assume "i < ?mid + 1"
        then consider "i = ?mid" | "i < ?mid" by linarith
        then show "key_less (ch_key (ts ! i)) (c, h)"
        proof cases
          case 1
          then show ?thesis using lt by simp
        next
          case 2
          then show ?thesis using srt[OF 2 midlen] lt key_less_trans by blast
        qed
      qed
      have ih: "find_insertion_loop ts c h (?mid + 1) high \<le> length ts \<and>
         (\<forall>i<find_insertion_loop ts c h (?mid + 1) high. key_less (ch_key (ts ! i)) (c, h)) \<and>
         (\<forall>i. find_insertion_loop ts c h (?mid + 1) high \<le> i \<and> i < length ts \<longrightarrow>
              \<not> key_less (ch_key (ts ! i)) (c, h))"
        using "1.IH"(1)[OF True c1 "1.prems"(1) _ "1.prems"(3) below "1.prems"(5)] mid
        by simp
      have "find_insertion_loop ts c h low high = find_insertion_loop ts c h (?mid + 1) high"
        using True c1 by (subst find_insertion_loop.simps) simp
      then show ?thesis using ih by simp
    next
      case ge: False
      then have c1: "\<not> (cyl (ts ! ?mid) < c \<or> (cyl (ts ! ?mid) = c \<and> head (ts ! ?mid) < h))"
        by (simp add: key_less_def ch_key_def)
      have above: "\<forall>i. ?mid \<le> i \<and> i < length ts \<longrightarrow> \<not> key_less (ch_key (ts ! i)) (c, h)"
      proof (intro allI impI)
        fix i assume a: "?mid \<le> i \<and> i < length ts"
        then consider "i = ?mid" | "?mid < i" by linarith
        then show "\<not> key_less (ch_key (ts ! i)) (c, h)"
        proof cases
          case 1
          then show ?thesis using ge by simp
        next
          case 2
          have "key_less (ch_key (ts ! ?mid)) (ch_key (ts ! i))" using srt[OF 2] a by simp
          then show ?thesis using ge key_less_trans by blast
        qed
      qed
      have ih: "find_insertion_loop ts c h low ?mid \<le> length ts \<and>
         (\<forall>i<find_insertion_loop ts c h low ?mid. key_less (ch_key (ts ! i)) (c, h)) \<and>
         (\<forall>i. find_insertion_loop ts c h low ?mid \<le> i \<and> i < length ts \<longrightarrow>
              \<not> key_less (ch_key (ts ! i)) (c, h))"
        using "1.IH"(2)[OF True c1 "1.prems"(1) _ _ "1.prems"(4) above] mid midlen
        by simp
      have "find_insertion_loop ts c h low high = find_insertion_loop ts c h low ?mid"
        using True c1 by (subst find_insertion_loop.simps) auto
      then show ?thesis using ih by simp
    qed
  qed
qed

lemma find_track_index_None:
  assumes "find_track_index_internal imdf c h = None"
  shows "\<forall>i<length (tracks imdf). ch_key (tracks imdf ! i) \<noteq> (c, h)"
  using assms
  by (auto simp: find_track_index_internal_def find_None_iff ch_key_def)

lemma find_track_index_Some:
  assumes "find_track_index_internal imdf c h = Some idx"
  shows "idx < length (tracks imdf) \<and> ch_key (tracks imdf ! idx) = (c, h)"
  using assms
  by (auto simp: find_track_index_internal_def find_Some_iff ch_key_def)

lemma insert_keeps_sorted:
  assumes srt: "sorted_wrt key_less (map ch_key ts)"
    and none: "\<forall>i<length ts. ch_key (ts ! i) \<noteq> (c, h)"
    and key: "ch_key t = (c, h)"
  shows "sorted_wrt key_less
           (map ch_key (take (find_insertion_loop ts c h 0 (length ts)) ts @ t #
                        drop (find_insertion_loop ts c h 0 (length ts)) ts))"
proof -
  let ?r = "find_insertion_loop ts c h 0 (length ts)"
  have spec: "?r \<le> length ts \<and> (\<forall>i<?r. key_less (ch_key (ts ! i)) (c, h)) \<and>
      (\<forall>i. ?r \<le> i \<and> i < length ts \<longrightarrow> \<not> key_less (ch_key (ts ! i)) (c, h))"
    by (rule find_insertion_loop_spec[OF srt]) auto
  have before: "\<forall>x\<in>set (take ?r ts). key_less (ch_key x) (ch_key t)"
  proof
    fix x assume "x \<in> set (take ?r ts)"
    then obtain i where "i < length (take ?r ts)" "x = take ?r ts ! i"
      by (auto simp: in_set_conv_nth)
    then show "key_less (ch_key x) (ch_key t)" using spec key by simp
  qed
  have after: "\<forall>y\<in>set (drop ?r ts). key_less (ch_key t) (ch_key y)"
  proof
    fix y assume "y \<in> set (drop ?r ts)"
    then obtain i where i: "i < length (drop ?r ts)" "y = drop ?r ts ! i"
      by (auto simp: in_set_conv_nth)
    then have "?r + i < length ts" "y = ts ! (?r + i)" using spec by auto
    then have "\<not> key_less (ch_key y) (c, h)" "ch_key y \<noteq> (c, h)" using spec none by auto
    then show "key_less (ch_key t) (ch_key y)" using key key_less_total by metis
  qed
  have "sorted_wrt key_less (map ch_key (take ?r ts @ drop ?r ts))"
    using srt by simp
  then have parts: "sorted_wrt key_less (map ch_key (take ?r ts))"
    "sorted_wrt key_less (map ch_key (drop ?r ts))"
    unfolding map_append sorted_wrt_append by blast+
  have cross: "\<forall>x\<in>set (take ?r ts). \<forall>y\<in>set (drop ?r ts). key_less (ch_key x) (ch_key y)"
    using before after key_less_trans by blast
  show ?thesis
    using parts before after cross
    by (simp add: sorted_wrt_append)
qed

lemma update_keeps_keys:
  assumes "idx < length ts" and "ch_key (ts ! idx) = ch_key t"
  shows "map ch_key (ts[idx := t]) = map ch_key ts"
  using assms by (simp add: map_update list_update_same_conv)

lemma new_track_key:
  assumes "new_track c h nsec ssize ssize_code fill_byte smap_in cmap_in hmap_in = Inr t"
  shows "ch_key t = (c, h)"
proof (cases "unat nsec > 0")
  case True
  let ?t0 = "zero_track\<lparr>cyl := c, head := h, num_sectors := nsec,
                 sector_size_code := ssize_code, sector_size := ssize,
                 mode := IMD_MODE_MFM_250, loaded := 1,
                 hflag := (if cmap_in \<noteq> None then IMD_HFLAG_CMAP_PRES else 0) OR
                          (if hmap_in \<noteq> None then IMD_HFLAG_HMAP_PRES else 0)\<rparr>"
  from assms True obtain t1 where t1: "imd_alloc_track_data ?t0 = Inr t1"
    by (auto simp: new_track_def Let_def split: sum.splits)
  then have "ch_key t1 = (c, h)"
    by (auto simp: imd_alloc_track_data_def Let_def ch_key_def split: if_splits)
  with assms True t1 show ?thesis
    by (auto simp: new_track_def Let_def ch_key_def)
next
  case False
  with assms show ?thesis
    by (auto simp: new_track_def Let_def ch_key_def)
qed

lemma place_track_sorted:
  assumes srt: "tracks_sorted imdf" and kt: "ch_key t = (c, h)"
    and pl: "place_track imdf c h t = (insert_idx, tracks1)"
  shows "sorted_wrt key_less (map ch_key tracks1) \<and> insert_idx < length tracks1 \<and>
         ch_key (tracks1 ! insert_idx) = (c, h)"
proof (cases "find_track_index_internal imdf c h")
  case None
  then have none: "\<forall>i<length (tracks imdf). ch_key (tracks imdf ! i) \<noteq> (c, h)"
    using find_track_index_None[of imdf c h] by simp
  have "place_track imdf c h t =
          (find_insertion_index imdf c h,
           take (find_insertion_index imdf c h) (tracks imdf) @ t #
           drop (find_insertion_index imdf c h) (tracks imdf))"
    using None by (simp add: place_track_def Let_def)
  with pl have ii0: "find_insertion_index imdf c h = insert_idx"
    and t10: "take (find_insertion_index imdf c h) (tracks imdf) @ t #
           drop (find_insertion_index imdf c h) (tracks imdf) = tracks1"
    by (metis prod.inject)+
  have ii: "insert_idx = find_insertion_loop (tracks imdf) c h 0 (length (tracks imdf))"
    using ii0 by (simp add: find_insertion_index_def)
  have t1: "tracks1 = take insert_idx (tracks imdf) @ t # drop insert_idx (tracks imdf)"
    using t10 ii0 by simp
  have srt': "sorted_wrt key_less (map ch_key (tracks imdf))"
    using srt by (simp add: tracks_sorted_def)
  have le: "insert_idx \<le> length (tracks imdf)"
  proof -
    have "\<forall>i<0::nat. key_less (ch_key (tracks imdf ! i)) (c, h)" by simp
    moreover have "\<forall>i. length (tracks imdf) \<le> i \<and> i < length (tracks imdf) \<longrightarrow>
        \<not> key_less (ch_key (tracks imdf ! i)) (c, h)" by auto
    ultimately have "find_insertion_loop (tracks imdf) c h 0 (length (tracks imdf))
        \<le> length (tracks imdf)"
      using find_insertion_loop_spec[OF srt', of 0 "length (tracks imdf)" c h] by blast
    then show ?thesis by (simp only: ii)
  qed
  have "tracks1 = take (find_insertion_loop (tracks imdf) c h 0 (length (tracks imdf)))
             (tracks imdf) @ t #
           drop (find_insertion_loop (tracks imdf) c h 0 (length (tracks imdf))) (tracks imdf)"
    using t1 by (simp only: ii[symmetric])
  then have "sorted_wrt key_less (map ch_key tracks1)"
    using insert_keeps_sorted[OF srt' none kt] by (simp only:)
  moreover have "tracks1 ! insert_idx = t" "insert_idx < length tracks1"
    using le by (simp_all add: t1 nth_append)
  ultimately show ?thesis using kt by simp
next
  case (Some idx)
  then have idx: "idx < length (tracks imdf)" "ch_key (tracks imdf ! idx) = (c, h)"
    using find_track_index_Some[of imdf c h idx] by simp_all
  have "place_track imdf c h t = (idx, (tracks imdf)[idx := t])"
    using Some by (simp add: place_track_def)
  with pl have ii: "insert_idx = idx" and t1: "tracks1 = (tracks imdf)[idx := t]"
    by (metis prod.inject)+
  have "map ch_key tracks1 = map ch_key (tracks imdf)"
    using idx kt by (simp add: t1 update_keeps_keys)
  then show ?thesis using srt idx kt
    by (simp add: tracks_sorted_def t1 ii)
qed

lemma predict_compressed_key: "ch_key (predict_compressed t) = ch_key t"
  by (simp add: predict_compressed_def ch_key_def)

lemma write_track_success:
  assumes ok: "imdf_write_track imdf c h nsec ssize fill_byte smap_in cmap_in hmap_in timestamp
               = Some (Inr imdf')"
  shows "\<exists>ssize_code t insert_idx tracks1.
           new_track c h nsec ssize ssize_code fill_byte smap_in cmap_in hmap_in = Inr t \<and>
           place_track imdf c h t = (insert_idx, tracks1) \<and>
           tracks imdf' = tracks1[insert_idx := predict_compressed t]"
proof (cases "get_sector_size_code ssize")
  case None
  with ok show ?thesis
    by (simp add: imdf_write_track_def split: if_splits)
next
  case (Some ssize_code)
  show ?thesis
  proof (cases "new_track c h nsec ssize ssize_code fill_byte smap_in cmap_in hmap_in")
    case (Inl e)
    with ok Some show ?thesis
      by (simp add: imdf_write_track_def split: if_splits)
  next
    case (Inr t)
    obtain insert_idx tracks1 where pl: "place_track imdf c h t = (insert_idx, tracks1)"
      by (cases "place_track imdf c h t") auto
    let ?rw = "rewrite_image_file (imdf\<lparr>tracks := tracks1\<rparr>) insert_idx
                (default_libimdf_write_opts\<lparr>compression_mode :=
                   IMD_COMPRESSION_FORCE_COMPRESS\<rparr>) timestamp"
    consider "?rw = None" | e where "?rw = Some (Inl e)" | f where "?rw = Some (Inr f)"
      by (metis option.exhaust sum.exhaust)
    then show ?thesis
    proof cases
      case 1
      with ok Some Inr pl show ?thesis
        by (simp add: imdf_write_track_def split: if_splits)
    next
      case 2
      with ok Some Inr pl show ?thesis
        by (simp add: imdf_write_track_def split: if_splits)
    next
      case 3
      with ok Some Inr pl have "tracks imdf' = tracks1[insert_idx := predict_compressed t]"
        by (auto simp: imdf_write_track_def split: if_splits)
      with Inr pl show ?thesis by blast
    qed
  qed
qed

text \<open>
  C5, as amended. If the image's tracks are strictly sorted by (cyl, head) before the
  call, then after every successful \<open>imdf_write_track\<close> they are strictly sorted by
  (cyl, head), with no duplicate pair.
\<close>

theorem write_track_keeps_sorted:
  assumes srt: "tracks_sorted imdf"
    and ok: "imdf_write_track imdf c h nsec ssize fill_byte smap_in cmap_in hmap_in timestamp
               = Some (Inr imdf')"
  shows "tracks_sorted imdf'"
proof -
  from write_track_success[OF ok] obtain ssize_code t insert_idx tracks1 where
    nt: "new_track c h nsec ssize ssize_code fill_byte smap_in cmap_in hmap_in = Inr t" and
    pl: "place_track imdf c h t = (insert_idx, tracks1)" and
    res: "tracks imdf' = tracks1[insert_idx := predict_compressed t]"
    by blast
  have kt: "ch_key t = (c, h)" by (rule new_track_key[OF nt])
  note s1 = place_track_sorted[OF srt kt pl]
  have "map ch_key (tracks1[insert_idx := predict_compressed t]) = map ch_key tracks1"
    using s1 kt by (simp add: update_keeps_keys predict_compressed_key)
  then show ?thesis using s1 res by (simp add: tracks_sorted_def)
qed

theorem write_track_keeps_sorted_witness:
  "tracks_sorted (example_image [example_track 0 0, example_track 2 0]) \<and>
   (\<exists>imdf'. imdf_write_track (example_image [example_track 0 0, example_track 2 0])
               1 0 2 128 0xE5 None None None ''01/01/2025 00:00:00'' = Some (Inr imdf') \<and>
            tracks_sorted imdf')"
proof -
  let ?img = "example_image [example_track 0 0, example_track 2 0]"
  have s: "tracks_sorted ?img"
    by code_simp
  have "returned_ok (imdf_write_track ?img 1 0 2 128 0xE5 None None None ''01/01/2025 00:00:00'')"
    by code_simp
  then obtain imdf' where
    ok: "imdf_write_track ?img 1 0 2 128 0xE5 None None None ''01/01/2025 00:00:00''
           = Some (Inr imdf')"
    using returned_ok_result by blast
  show ?thesis
    using s ok write_track_keeps_sorted [OF s ok] by blast
qed

text \<open>
  The claim as stated fails for an image whose file lists its tracks out of order
  (\<open>imdf_open\<close> keeps the file's order): writing track (2, 0) into the image with the
  tracks (1, 0), (0, 0) succeeds and leaves (1, 0), (0, 0), (2, 0).
\<close>

theorem write_track_unsorted_counterexample:
  "map_option (map_sum id ch_keys)
     (imdf_write_track (example_image [example_track 1 0, example_track 0 0])
        2 0 0 128 0xE5 None None None ''01/01/2025 00:00:00'')
     = Some (Inr [(1, 0), (0, 0), (2, 0)]) \<and>
   \<not> key_less (1, 0) (0, 0)"
  by code_simp

section \<open>Writing a sector that breaks a compressed sector's uniformity\<close>

text \<open>
  C2. The claim: when \<open>imdf_write_sector\<close> puts non-uniform data into a sector whose
  flag was compressed, the file is rewritten with force-decompress for the track and every
  sector of the track gets the normal-base code that preserves its own DAM and ERR bits.
  Here the track has a compressed sector (ID 1) and an unavailable one (ID 2, flag 0x00,
  which carries neither DAM nor ERR). After the write the file holds the records 0x01
  and 0x00, while the in-memory flag of the unavailable sector has become 0x07, deleted
  data with error.
\<close>

theorem write_sector_marks_unavailable_deleted_error:
  "map_option (map_sum id (track_sflags 0))
     (imdf_write_sector
        (example_image [example_track_2x128 [1, 2] [0x02, 0x00] (replicate 256 0xE5)])
        0 0 1 (0x00 # replicate 127 0xE5) ''01/01/2025 00:00:00'')
     = Some (Inr [0x01, 0x07]) \<and>
   map_option (map_sum id file_bytes)
     (imdf_write_sector
        (example_image [example_track_2x128 [1, 2] [0x02, 0x00] (replicate 256 0xE5)])
        0 0 1 (0x00 # replicate 127 0xE5) ''01/01/2025 00:00:00'')
     = Some (Inr (map of_char ''IMD 1.19: 01/01/2025 00:00:00'' @ [0x0D, 0x0A, 0x1A]
                  @ [5, 0, 0, 2, 0] @ [1, 2] @ [0x01, 0x00] @ replicate 127 0xE5 @ [0x00])) \<and>
   \<not> IMD_SDR_HAS_DATA 0x00"
  by code_simp

section \<open>Reading the header line\<close>




lemma is_space_blank [simp]: "is_space CHR '' ''"
  by (simp add: is_space_def)






text \<open>What \<open>%d\<close> stores for a number that does not fit an \<open>int\<close>.\<close>

lemma scan_d_stores_low_bits:
  "scan_d ''4294967311:30'' = Some (15, '':30'') \<and>
   scan_d ''99999999999'' = Some (1215752191, []) \<and>
   scan_d ''-4294967295'' = Some (1, []) \<and>
   scan_d ''99999999999999999999'' = Some (- 1, [])"
  by code_simp







section \<open>The sector flags a track is written with\<close>

lemma for_each_Inr:
  "for_each f xs = Inr ys \<Longrightarrow>
     length ys = length xs \<and> (\<forall>k<length xs. f (xs ! k) = Inr (ys ! k))"
proof (induction xs arbitrary: ys)
  case Nil
  then show ?case by simp
next
  case (Cons x xs)
  from Cons.prems obtain y ys' where
    fx: "f x = Inr y" and r: "for_each f xs = Inr ys'" and ys: "ys = y # ys'"
    by (auto split: sum.splits)
  from Cons.IH[OF r] have ih: "length ys' = length xs" "\<forall>k<length xs. f (xs ! k) = Inr (ys' ! k)"
    by simp_all
  show ?case
  proof (intro conjI allI impI)
    show "length ys = length (x # xs)" using ih ys by simp
  next
    fix k assume "k < length (x # xs)"
    then show "f ((x # xs) ! k) = Inr (ys ! k)"
      using fx ih ys by (cases k) simp_all
  qed
qed

lemma write_track_imd_success:
  assumes "imd_write_track_imd track opts = Some (Inr out)"
  shows "\<exists>tw fs recs. track_to_write track opts = Some (Inr tw) \<and>
           final_sflags tw opts = Inr fs \<and>
           for_each (\<lambda>i. sector_record tw (fs ! i) i) [0..<unat (num_sectors tw)] = Inr recs \<and>
           out = track_header_bytes tw opts @ track_map_bytes tw @ concat recs"
  using assms unfolding imd_write_track_imd_def
  by (simp split: if_splits option.splits sum.splits)

lemma combine_normal:
  "combine_sflag IMD_SDR_NORMAL d e \<in> {0x01, 0x03, 0x05, 0x07}"
  by (simp add: combine_sflag_def IMD_SDR_NORMAL_def IMD_SDR_DELETED_ERR_def
      IMD_SDR_NORMAL_ERR_def IMD_SDR_NORMAL_DAM_def)

lemma combine_compressed:
  "combine_sflag IMD_SDR_COMPRESSED d e \<in> {0x02, 0x04, 0x06, 0x08}"
  by (simp add: combine_sflag_def IMD_SDR_NORMAL_def IMD_SDR_COMPRESSED_def
      IMD_SDR_COMPRESSED_DEL_ERR_def IMD_SDR_COMPRESSED_ERR_def IMD_SDR_COMPRESSED_DAM_def)

lemma odd_codes:
  "(f :: u8) \<in> {0x01, 0x03, 0x05, 0x07} \<Longrightarrow> \<not> IMD_SDR_IS_COMPRESSED f \<and> odd (unat f)"
  by (auto simp: IMD_SDR_IS_COMPRESSED_def)

lemma even_codes:
  "(f :: u8) \<in> {0x02, 0x04, 0x06, 0x08} \<Longrightarrow> IMD_SDR_IS_COMPRESSED f \<and> even (unat f)"
  by (auto simp: IMD_SDR_IS_COMPRESSED_def)

lemma final_sflag_unavailable:
  "sflag tw ! i = IMD_SDR_UNAVAILABLE \<Longrightarrow> final_sflag_at tw opts i = Inr IMD_SDR_UNAVAILABLE"
  by (simp add: final_sflag_at_def)

lemma final_sflag_force_compress:
  assumes "final_sflag_at tw opts i = Inr f"
    and "compression_mode opts = IMD_COMPRESSION_FORCE_COMPRESS"
    and "sflag tw ! i \<noteq> IMD_SDR_UNAVAILABLE" and "sector_size tw > 0"
  shows "(IMD_SDR_IS_COMPRESSED f \<longleftrightarrow>
            imd_is_uniform (sector_bytes (the (data tw)) (sector_size tw) i)) \<and>
         (even (unat f) \<longleftrightarrow>
            imd_is_uniform (sector_bytes (the (data tw)) (sector_size tw) i))"
proof -
  let ?u = "imd_is_uniform (sector_bytes (the (data tw)) (sector_size tw) i)"
  from assms have ok: "sector_data_ok tw i"
    by (auto simp: final_sflag_at_def Let_def split: if_splits)
  from assms ok have f: "f = combine_sflag (if ?u then IMD_SDR_COMPRESSED else IMD_SDR_NORMAL)
       (IMD_SDR_HAS_DAM (sflag tw ! i) \<and> force_non_deleted opts = 0)
       (IMD_SDR_HAS_ERR (sflag tw ! i) \<and> force_non_bad opts = 0)"
    by (simp add: final_sflag_at_def Let_def)
  show ?thesis
  proof (cases ?u)
    case True
    then show ?thesis using f even_codes[OF combine_compressed] by simp
  next
    case False
    then show ?thesis using f odd_codes[OF combine_normal] by simp
  qed
qed

lemma apply_interleave_fields:
  assumes "imd_apply_interleave track k = Some (Inr tw)"
  shows "sector_size tw = sector_size track \<and> num_sectors tw = num_sectors track \<and>
         mode tw = mode track \<and> cyl tw = cyl track \<and> head tw = head track \<and>
         hflag tw = hflag track \<and> sector_size_code tw = sector_size_code track \<and>
         data_size tw = data_size track \<and> loaded tw = loaded track"
  using assms unfolding imd_apply_interleave_def Let_def
  by (auto split: if_splits option.splits)

lemma track_to_write_fields:
  assumes "track_to_write track opts = Some (Inr tw)"
  shows "sector_size tw = sector_size track \<and> num_sectors tw = num_sectors track"
proof (cases "interleave_factor opts \<noteq> LIBIMD_IL_AS_READ \<and> num_sectors track > 1")
  case True
  with assms show ?thesis
    using apply_interleave_fields by (simp add: track_to_write_def Let_def)
next
  case False
  with assms show ?thesis by (auto simp: track_to_write_def Let_def)
qed

lemma track_to_write_as_read:
  "interleave_factor opts = LIBIMD_IL_AS_READ \<Longrightarrow> track_to_write track opts = Some (Inr track)"
  by (simp add: track_to_write_def)

lemma sector_record_flag:
  "sector_record tw f i = Inr r \<Longrightarrow> r \<noteq> [] \<and> hd r = f"
  by (auto simp: sector_record_def split: if_splits)

lemma sector_record_unavailable:
  "sector_record tw IMD_SDR_UNAVAILABLE i = Inr [IMD_SDR_UNAVAILABLE]"
  by (simp add: sector_record_def IMD_SDR_HAS_DATA_def IMD_SDR_UNAVAILABLE_def)

text \<open>What a successful \<open>imd_write_track_imd\<close> wrote.\<close>

lemma write_track_imd_layout:
  assumes "imd_write_track_imd track opts = Some (Inr out)"
  shows "\<exists>tw fs recs. track_to_write track opts = Some (Inr tw) \<and>
           final_sflags tw opts = Inr fs \<and>
           length fs = unat (num_sectors tw) \<and> length recs = unat (num_sectors tw) \<and>
           out = track_header_bytes tw opts @ track_map_bytes tw @ concat recs \<and>
           (\<forall>i<unat (num_sectors tw).
              final_sflag_at tw opts i = Inr (fs ! i) \<and>
              sector_record tw (fs ! i) i = Inr (recs ! i))"
proof -
  from write_track_imd_success[OF assms] obtain tw fs recs where
    tw: "track_to_write track opts = Some (Inr tw)" and
    fs: "final_sflags tw opts = Inr fs" and
    recs: "for_each (\<lambda>i. sector_record tw (fs ! i) i) [0..<unat (num_sectors tw)] = Inr recs" and
    out: "out = track_header_bytes tw opts @ track_map_bytes tw @ concat recs"
    by blast
  from for_each_Inr[OF fs[unfolded final_sflags_def]]
  have f1: "length fs = unat (num_sectors tw)"
    and f2: "\<forall>i<unat (num_sectors tw). final_sflag_at tw opts i = Inr (fs ! i)"
    by simp_all
  from for_each_Inr[OF recs]
  have r1: "length recs = unat (num_sectors tw)"
    and r2: "\<forall>i<unat (num_sectors tw). sector_record tw (fs ! i) i = Inr (recs ! i)"
    by simp_all
  show ?thesis using tw fs out f1 f2 r1 r2 by blast
qed

lemma combine_has_data:
  "IMD_SDR_HAS_DATA (combine_sflag IMD_SDR_NORMAL d e) \<and>
   IMD_SDR_HAS_DATA (combine_sflag IMD_SDR_COMPRESSED d e)"
  by (simp add: combine_sflag_def IMD_SDR_HAS_DATA_def IMD_SDR_NORMAL_def
      IMD_SDR_COMPRESSED_def IMD_SDR_DELETED_ERR_def IMD_SDR_NORMAL_ERR_def
      IMD_SDR_NORMAL_DAM_def IMD_SDR_COMPRESSED_DEL_ERR_def IMD_SDR_COMPRESSED_ERR_def
      IMD_SDR_COMPRESSED_DAM_def)

lemma sector_record_force_compress:
  assumes a: "final_sflag_at tw opts i = Inr f"
    and fc: "compression_mode opts = IMD_COMPRESSION_FORCE_COMPRESS"
    and av: "sflag tw ! i \<noteq> IMD_SDR_UNAVAILABLE" and sz: "sector_size tw > 0"
    and b: "sector_record tw f i = Inr r"
  shows "r = (if imd_is_uniform (sector_bytes (the (data tw)) (sector_size tw) i)
              then [f, uniform_fill_byte (sector_bytes (the (data tw)) (sector_size tw) i)]
              else f # sector_bytes (the (data tw)) (sector_size tw) i)"
proof -
  let ?u = "imd_is_uniform (sector_bytes (the (data tw)) (sector_size tw) i)"
  from a av sz have ok: "sector_data_ok tw i"
    by (auto simp: final_sflag_at_def Let_def split: if_splits)
  from a fc av ok sz have f: "f = combine_sflag (if ?u then IMD_SDR_COMPRESSED else IMD_SDR_NORMAL)
       (IMD_SDR_HAS_DAM (sflag tw ! i) \<and> force_non_deleted opts = 0)
       (IMD_SDR_HAS_ERR (sflag tw ! i) \<and> force_non_bad opts = 0)"
    by (simp add: final_sflag_at_def Let_def)
  have c: "IMD_SDR_IS_COMPRESSED f \<longleftrightarrow> ?u"
    using final_sflag_force_compress[OF a fc av sz] by blast
  have hd: "IMD_SDR_HAS_DATA f"
    unfolding f using combine_has_data by (cases ?u) simp_all
  show ?thesis using b hd c ok sz by (simp add: sector_record_def split: if_splits)
qed

text \<open>
  C7, as amended. When \<open>imd_write_track_imd\<close> writes a track (of sectors that are not
  empty) with force-compress, the output is the track header, the maps and one record
  per sector of the track as written (the input track under as-read interleave, the
  interleaved working copy otherwise), with the flags that \<open>final_sflags\<close> computes and
  the records that \<open>sector_record\<close> builds from them. For every sector \<open>i\<close> whose
  flag is not 0x00, the flag byte written is a compressed (even) code if and only if the
  sector's bytes at offsets \<open>i * sector_size .. (i + 1) * sector_size\<close> are all equal;
  the record is the flag and the fill byte when they are, the flag and the sector's bytes
  when they are not. A sector whose flag is 0x00 is written as the single byte 0x00,
  whatever its bytes.
\<close>

theorem force_compress_uniformity:
  assumes ok: "imd_write_track_imd track opts = Some (Inr out)"
    and fc: "compression_mode opts = IMD_COMPRESSION_FORCE_COMPRESS"
    and sz: "sector_size track > 0"
  shows "\<exists>tw fs recs. track_to_write track opts = Some (Inr tw) \<and>
           (interleave_factor opts = LIBIMD_IL_AS_READ \<longrightarrow> tw = track) \<and>
           final_sflags tw opts = Inr fs \<and>
           length fs = unat (num_sectors tw) \<and> length recs = unat (num_sectors tw) \<and>
           out = track_header_bytes tw opts @ track_map_bytes tw @ concat recs \<and>
           (\<forall>i<unat (num_sectors tw).
              sector_record tw (fs ! i) i = Inr (recs ! i) \<and>
              (sflag tw ! i = IMD_SDR_UNAVAILABLE \<longrightarrow>
                 fs ! i = IMD_SDR_UNAVAILABLE \<and> recs ! i = [IMD_SDR_UNAVAILABLE]) \<and>
              (sflag tw ! i \<noteq> IMD_SDR_UNAVAILABLE \<longrightarrow>
                 (IMD_SDR_IS_COMPRESSED (fs ! i) \<longleftrightarrow>
                    imd_is_uniform (sector_bytes (the (data tw)) (sector_size tw) i)) \<and>
                 (even (unat (fs ! i)) \<longleftrightarrow>
                    imd_is_uniform (sector_bytes (the (data tw)) (sector_size tw) i)) \<and>
                 recs ! i =
                   (if imd_is_uniform (sector_bytes (the (data tw)) (sector_size tw) i)
                    then [fs ! i,
                          uniform_fill_byte (sector_bytes (the (data tw)) (sector_size tw) i)]
                    else fs ! i # sector_bytes (the (data tw)) (sector_size tw) i)))"
proof -
  from write_track_imd_layout[OF ok] obtain tw fs recs where
    tw: "track_to_write track opts = Some (Inr tw)" and
    fs: "final_sflags tw opts = Inr fs" and
    len: "length fs = unat (num_sectors tw)" "length recs = unat (num_sectors tw)" and
    out: "out = track_header_bytes tw opts @ track_map_bytes tw @ concat recs" and
    each: "\<forall>i<unat (num_sectors tw).
              final_sflag_at tw opts i = Inr (fs ! i) \<and>
              sector_record tw (fs ! i) i = Inr (recs ! i)"
    by blast
  have sz': "sector_size tw > 0" using track_to_write_fields[OF tw] sz by simp
  have asr: "interleave_factor opts = LIBIMD_IL_AS_READ \<longrightarrow> tw = track"
    using tw track_to_write_as_read[of opts track] by auto
  have "\<forall>i<unat (num_sectors tw).
              sector_record tw (fs ! i) i = Inr (recs ! i) \<and>
              (sflag tw ! i = IMD_SDR_UNAVAILABLE \<longrightarrow>
                 fs ! i = IMD_SDR_UNAVAILABLE \<and> recs ! i = [IMD_SDR_UNAVAILABLE]) \<and>
              (sflag tw ! i \<noteq> IMD_SDR_UNAVAILABLE \<longrightarrow>
                 (IMD_SDR_IS_COMPRESSED (fs ! i) \<longleftrightarrow>
                    imd_is_uniform (sector_bytes (the (data tw)) (sector_size tw) i)) \<and>
                 (even (unat (fs ! i)) \<longleftrightarrow>
                    imd_is_uniform (sector_bytes (the (data tw)) (sector_size tw) i)) \<and>
                 recs ! i =
                   (if imd_is_uniform (sector_bytes (the (data tw)) (sector_size tw) i)
                    then [fs ! i,
                          uniform_fill_byte (sector_bytes (the (data tw)) (sector_size tw) i)]
                    else fs ! i # sector_bytes (the (data tw)) (sector_size tw) i))"
  proof (intro allI impI)
    fix i assume i: "i < unat (num_sectors tw)"
    with each have a: "final_sflag_at tw opts i = Inr (fs ! i)"
      and b: "sector_record tw (fs ! i) i = Inr (recs ! i)" by simp_all
    have u: "sflag tw ! i = IMD_SDR_UNAVAILABLE \<longrightarrow>
                 fs ! i = IMD_SDR_UNAVAILABLE \<and> recs ! i = [IMD_SDR_UNAVAILABLE]"
    proof
      assume un: "sflag tw ! i = IMD_SDR_UNAVAILABLE"
      from a final_sflag_unavailable[OF un, of opts] have f: "fs ! i = IMD_SDR_UNAVAILABLE"
        by simp
      with b sector_record_unavailable[of tw i] show
        "fs ! i = IMD_SDR_UNAVAILABLE \<and> recs ! i = [IMD_SDR_UNAVAILABLE]" by simp
    qed
    have v: "sflag tw ! i \<noteq> IMD_SDR_UNAVAILABLE \<longrightarrow>
                 (IMD_SDR_IS_COMPRESSED (fs ! i) \<longleftrightarrow>
                    imd_is_uniform (sector_bytes (the (data tw)) (sector_size tw) i)) \<and>
                 (even (unat (fs ! i)) \<longleftrightarrow>
                    imd_is_uniform (sector_bytes (the (data tw)) (sector_size tw) i)) \<and>
                 recs ! i =
                   (if imd_is_uniform (sector_bytes (the (data tw)) (sector_size tw) i)
                    then [fs ! i,
                          uniform_fill_byte (sector_bytes (the (data tw)) (sector_size tw) i)]
                    else fs ! i # sector_bytes (the (data tw)) (sector_size tw) i)"
    proof
      assume av: "sflag tw ! i \<noteq> IMD_SDR_UNAVAILABLE"
      show "(IMD_SDR_IS_COMPRESSED (fs ! i) \<longleftrightarrow>
                    imd_is_uniform (sector_bytes (the (data tw)) (sector_size tw) i)) \<and>
                 (even (unat (fs ! i)) \<longleftrightarrow>
                    imd_is_uniform (sector_bytes (the (data tw)) (sector_size tw) i)) \<and>
                 recs ! i =
                   (if imd_is_uniform (sector_bytes (the (data tw)) (sector_size tw) i)
                    then [fs ! i,
                          uniform_fill_byte (sector_bytes (the (data tw)) (sector_size tw) i)]
                    else fs ! i # sector_bytes (the (data tw)) (sector_size tw) i)"
        using final_sflag_force_compress[OF a fc av sz']
          sector_record_force_compress[OF a fc av sz' b] by blast
    qed
    show "sector_record tw (fs ! i) i = Inr (recs ! i) \<and>
              (sflag tw ! i = IMD_SDR_UNAVAILABLE \<longrightarrow>
                 fs ! i = IMD_SDR_UNAVAILABLE \<and> recs ! i = [IMD_SDR_UNAVAILABLE]) \<and>
              (sflag tw ! i \<noteq> IMD_SDR_UNAVAILABLE \<longrightarrow>
                 (IMD_SDR_IS_COMPRESSED (fs ! i) \<longleftrightarrow>
                    imd_is_uniform (sector_bytes (the (data tw)) (sector_size tw) i)) \<and>
                 (even (unat (fs ! i)) \<longleftrightarrow>
                    imd_is_uniform (sector_bytes (the (data tw)) (sector_size tw) i)) \<and>
                 recs ! i =
                   (if imd_is_uniform (sector_bytes (the (data tw)) (sector_size tw) i)
                    then [fs ! i,
                          uniform_fill_byte (sector_bytes (the (data tw)) (sector_size tw) i)]
                    else fs ! i # sector_bytes (the (data tw)) (sector_size tw) i))"
      using b u v by blast
  qed
  with tw asr fs len out show ?thesis by blast
qed

theorem force_compress_uniformity_witness:
  "imd_write_track_imd
     (example_track_2x128 [1, 2] [0x01, 0x01] (replicate 128 0xE5 @ 0x00 # replicate 127 0xE5))
     force_compress_opts
     = Some (Inr ([5, 0, 0, 2, 0] @ [1, 2] @ [0x02, 0xE5] @ 0x01 # 0x00 # replicate 127 0xE5)) \<and>
   compression_mode force_compress_opts = IMD_COMPRESSION_FORCE_COMPRESS \<and>
   sector_size (example_track_2x128 [1, 2] [0x01, 0x01]
                  (replicate 128 0xE5 @ 0x00 # replicate 127 0xE5)) > 0 \<and>
   final_sflags (example_track_2x128 [1, 2] [0x01, 0x01]
                  (replicate 128 0xE5 @ 0x00 # replicate 127 0xE5)) force_compress_opts
     = Inr [0x02, 0x01] \<and>
   imd_is_uniform (sector_bytes (replicate 128 0xE5 @ 0x00 # replicate 127 0xE5) 128 0) \<and>
   \<not> imd_is_uniform (sector_bytes (replicate 128 0xE5 @ 0x00 # replicate 127 0xE5) 128 1)"
proof -
  let ?d = "replicate 128 0xE5 @ 0x00 # replicate 127 0xE5 :: u8 list"
  let ?t = "example_track_2x128 [1, 2] [0x01, 0x01] ?d"
  let ?out = "[5, 0, 0, 2, 0] @ [1, 2] @ [0x02, 0xE5] @ 0x01 # 0x00 # replicate 127 0xE5 :: u8 list"
  have ok: "imd_write_track_imd ?t force_compress_opts = Some (Inr ?out)"
    by code_simp
  have fc: "compression_mode force_compress_opts = IMD_COMPRESSION_FORCE_COMPRESS"
    by (simp add: force_compress_opts_def)
  have sz: "sector_size ?t > 0"
    by (simp add: example_track_2x128_def)
  have il: "interleave_factor force_compress_opts = LIBIMD_IL_AS_READ"
    by (simp add: force_compress_opts_def default_libimdf_write_opts_def)
  have ns: "unat (num_sectors ?t) = 2" "sector_size ?t = 128" "data ?t = Some ?d"
    "sflag ?t ! 0 \<noteq> IMD_SDR_UNAVAILABLE" "sflag ?t ! 1 \<noteq> IMD_SDR_UNAVAILABLE"
    by (simp_all add: example_track_2x128_def memcpy_prefix_def IMD_SDR_UNAVAILABLE_def)
  from force_compress_uniformity [OF ok fc sz] il obtain fs where
    fs: "final_sflags ?t force_compress_opts = Inr fs" "length fs = unat (num_sectors ?t)" and
    each: "\<forall>i<unat (num_sectors ?t).
             sflag ?t ! i \<noteq> IMD_SDR_UNAVAILABLE \<longrightarrow>
               (IMD_SDR_IS_COMPRESSED (fs ! i) \<longleftrightarrow>
                  imd_is_uniform (sector_bytes (the (data ?t)) (sector_size ?t) i))"
    by blast
  have v: "final_sflags ?t force_compress_opts = Inr [0x02, 0x01]"
    by code_simp
  with fs have fsv: "fs = [0x02, 0x01]" by simp
  have u0: "IMD_SDR_IS_COMPRESSED (fs ! 0) \<longleftrightarrow> imd_is_uniform (sector_bytes ?d 128 0)"
    using each ns by simp
  have u1: "IMD_SDR_IS_COMPRESSED (fs ! 1) \<longleftrightarrow> imd_is_uniform (sector_bytes ?d 128 1)"
    using each ns by simp
  have c0: "IMD_SDR_IS_COMPRESSED (0x02 :: u8)" "\<not> IMD_SDR_IS_COMPRESSED (0x01 :: u8)"
    by (simp_all add: IMD_SDR_IS_COMPRESSED_def)
  have "imd_is_uniform (sector_bytes ?d 128 0)" using u0 c0 unfolding fsv by simp
  moreover have "\<not> imd_is_uniform (sector_bytes ?d 128 1)" using u1 c0 unfolding fsv by simp
  ultimately show ?thesis using ok fc sz v by blast
qed

text \<open>
  The claim as stated fails on unavailable sectors, which are written as 0x00 whatever
  their bytes: the first sector here is uniform and its flag is not a compressed code, the
  second is not uniform and its flag is even.
\<close>

theorem force_compress_unavailable_counterexample:
  "imd_write_track_imd
     (example_track_2x128 [1, 2] [0x00, 0x00] (replicate 128 0xE5 @ 0x00 # replicate 127 0xE5))
     force_compress_opts
     = Some (Inr ([5, 0, 0, 2, 0] @ [1, 2] @ [0x00, 0x00])) \<and>
   imd_is_uniform (sector_bytes (replicate 128 0xE5 @ 0x00 # replicate 127 0xE5) 128 0) \<and>
   \<not> IMD_SDR_IS_COMPRESSED 0x00 \<and>
   \<not> imd_is_uniform (sector_bytes (replicate 128 0xE5 @ 0x00 # replicate 127 0xE5) 128 1) \<and>
   even (unat (0x00 :: u8))"
  by code_simp

text \<open>The flag policy keeps an unavailable sector unavailable, whatever the options.\<close>

lemma unavailable_policy:
  assumes ok: "imd_write_track_imd track opts = Some (Inr out)"
  shows "\<exists>tw fs recs. track_to_write track opts = Some (Inr tw) \<and>
           (interleave_factor opts = LIBIMD_IL_AS_READ \<longrightarrow> tw = track) \<and>
           length fs = unat (num_sectors tw) \<and> length recs = unat (num_sectors tw) \<and>
           out = track_header_bytes tw opts @ track_map_bytes tw @ concat recs \<and>
           (\<forall>i<unat (num_sectors tw).
              sflag tw ! i = IMD_SDR_UNAVAILABLE \<longrightarrow>
                fs ! i = IMD_SDR_UNAVAILABLE \<and> recs ! i = [IMD_SDR_UNAVAILABLE])"
proof -
  from write_track_imd_layout[OF ok] obtain tw fs recs where
    tw: "track_to_write track opts = Some (Inr tw)" and
    len: "length fs = unat (num_sectors tw)" "length recs = unat (num_sectors tw)" and
    out: "out = track_header_bytes tw opts @ track_map_bytes tw @ concat recs" and
    each: "\<forall>i<unat (num_sectors tw).
              final_sflag_at tw opts i = Inr (fs ! i) \<and>
              sector_record tw (fs ! i) i = Inr (recs ! i)"
    by blast
  have asr: "interleave_factor opts = LIBIMD_IL_AS_READ \<longrightarrow> tw = track"
    using tw track_to_write_as_read[of opts track] by auto
  have "\<forall>i<unat (num_sectors tw).
              sflag tw ! i = IMD_SDR_UNAVAILABLE \<longrightarrow>
                fs ! i = IMD_SDR_UNAVAILABLE \<and> recs ! i = [IMD_SDR_UNAVAILABLE]"
  proof (intro allI impI)
    fix i assume i: "i < unat (num_sectors tw)" and u: "sflag tw ! i = IMD_SDR_UNAVAILABLE"
    from each i have a: "final_sflag_at tw opts i = Inr (fs ! i)"
      and b: "sector_record tw (fs ! i) i = Inr (recs ! i)" by simp_all
    from a final_sflag_unavailable[OF u, of opts] have f: "fs ! i = IMD_SDR_UNAVAILABLE" by simp
    with b sector_record_unavailable[of tw i] show
      "fs ! i = IMD_SDR_UNAVAILABLE \<and> recs ! i = [IMD_SDR_UNAVAILABLE]" by simp
  qed
  with tw asr len out show ?thesis by blast
qed

text \<open>
  C6. The claim: for every loaded track and every combination of write options,
  interleave factor included, \<open>imd_write_track_imd\<close> emits 0x00 for every sector whose
  input flag is 0x00. The flag policy does (\<open>unavailable_policy\<close>), but the interleave
  step before it looks every sector ID up at its first position: in the track below, whose
  two sectors share the ID 1, the unavailable second sector is replaced by a copy of the
  first, and the track is written with two data records and no 0x00.
\<close>

theorem interleave_duplicate_ids_drops_unavailable:
  "imd_write_track_imd
     (example_track_2x128 [1, 1] [0x01, 0x00] (replicate 128 0xAA @ replicate 128 0xE5))
     (default_libimdf_write_opts\<lparr>interleave_factor := 1\<rparr>)
     = Some (Inr ([5, 0, 0, 2, 0] @ [1, 1]
                  @ (0x01 # replicate 128 0xAA) @ (0x01 # replicate 128 0xAA))) \<and>
   sflag (example_track_2x128 [1, 1] [0x01, 0x00] (replicate 128 0xAA @ replicate 128 0xE5)) ! 1
     = IMD_SDR_UNAVAILABLE"
  by code_simp

section \<open>Interleave factor 1\<close>

lemma fold_fixed:
  "(\<And>x. x \<in> set xs \<Longrightarrow> f x a = a) \<Longrightarrow> fold f xs a = a"
  by (induction xs) simp_all

lemma bubble_step_ascending:
  assumes "sorted_wrt (<) a" and "Suc j < length a"
  shows "bubble_step j a = a"
proof -
  have "a ! j < a ! Suc j"
    using assms by (simp add: sorted_wrt_iff_nth_less)
  then have "\<not> a ! j > a ! (j + 1)" by (simp add: order.asym)
  then show ?thesis by (simp add: bubble_step_def)
qed

lemma bubble_sort_ascending:
  assumes "sorted_wrt (<) a" and "length a = n"
  shows "bubble_sort n a = a"
proof -
  have inner: "\<And>i. i \<in> set [0..<n - 1] \<Longrightarrow> fold bubble_step [0..<n - i - 1] a = a"
  proof -
    fix i assume "i \<in> set [0..<n - 1]"
    show "fold bubble_step [0..<n - i - 1] a = a"
      by (rule fold_fixed) (use assms in \<open>auto intro!: bubble_step_ascending\<close>)
  qed
  show ?thesis
    unfolding bubble_sort_def by (rule fold_fixed) (rule inner)
qed

lemma find_first_index:
  assumes "i < n" and "P i" and "\<And>k. k < i \<Longrightarrow> \<not> P k"
  shows "find P [0..<n] = Some i"
  using assms by (auto simp: find_Some_iff intro!: exI[of _ i])

lemma those_map_Some:
  "(\<And>x. x \<in> set xs \<Longrightarrow> f x = Some (g x)) \<Longrightarrow> those (map f xs) = Some (map g xs)"
  by (induction xs) simp_all

lemma logical_to_physical_ascending:
  assumes srt: "sorted_wrt (<) (take n sm)" and len: "n \<le> length sm"
  shows "logical_to_physical n sm (take n sm) = Some [0..<n]"
proof -
  have lt: "\<And>i j. i < j \<Longrightarrow> j < n \<Longrightarrow> sm ! i < sm ! j"
    using srt len by (auto simp: sorted_wrt_iff_nth_less)
  have "\<And>i. i \<in> set [0..<n] \<Longrightarrow>
          find (\<lambda>k. sm ! k = take n sm ! i) [0..<n] = Some (id i)"
  proof -
    fix i assume "i \<in> set [0..<n]"
    then have i: "i < n" by simp
    show "find (\<lambda>k. sm ! k = take n sm ! i) [0..<n] = Some (id i)"
      unfolding id_apply
    proof (rule find_first_index[OF i])
      show "sm ! i = take n sm ! i" using i by simp
    next
      fix k assume "k < i"
      then have "sm ! k < sm ! i" using lt i by simp
      then show "sm ! k \<noteq> take n sm ! i" using i by simp
    qed
  qed
  then have "those (map (\<lambda>i. find (\<lambda>k. sm ! k = take n sm ! i) [0..<n]) [0..<n])
               = Some (map id [0..<n])"
    by (rule those_map_Some)
  then show ?thesis by (simp add: logical_to_physical_def)
qed

lemma store_same_sector:
  assumes "(p + 1) * ssize \<le> length d"
  shows "store_sector d ssize p (sector_bytes d ssize p) = d"
proof -
  have l: "length (take ssize (drop (p * ssize) d)) = ssize"
    using assms by simp
  have "take ssize (drop (p * ssize) d) @ drop (p * ssize + ssize) d = drop (p * ssize) d"
    by (metis add.commute append_take_drop_id drop_drop)
  then show ?thesis
    unfolding store_sector_def sector_bytes_def l
    by (simp only: append_take_drop_id)
qed

lemma next_free_here:
  assumes "0 < fuel" and "used ! p = 0"
  shows "next_free fuel used n p = Some p"
  using assms by (cases fuel) simp_all

lemma used_prefix_nth:
  assumes "m < LIBIMD_MAX_SECTORS_PER_TRACK"
  shows "(replicate m (1::u8) @ replicate (LIBIMD_MAX_SECTORS_PER_TRACK - m) 0) ! m = 0"
  using assms by (simp add: nth_append)

lemma used_prefix_update:
  assumes "m < LIBIMD_MAX_SECTORS_PER_TRACK"
  shows "(replicate m (1::u8) @ replicate (LIBIMD_MAX_SECTORS_PER_TRACK - m) 0)[m := 1]
         = replicate (Suc m) 1 @ replicate (LIBIMD_MAX_SECTORS_PER_TRACK - Suc m) 0"
proof -
  from assms obtain r where r: "LIBIMD_MAX_SECTORS_PER_TRACK - m = Suc r"
    by (cases "LIBIMD_MAX_SECTORS_PER_TRACK - m") auto
  then have r': "LIBIMD_MAX_SECTORS_PER_TRACK - Suc m = r" by simp
  show ?thesis
    unfolding r r' by (simp add: list_update_append replicate_append_same)
qed

lemma place_identity:
  assumes d: "data track = Some d"
    and n: "n = unat (num_sectors track)"
    and room: "n * sector_size track \<le> length d"
    and m: "m \<le> n"
  shows "fold (place_step track 1 [0..<n]) [0..<m]
           (Some \<lparr> ps_smap = smap track, ps_cmap = cmap track, ps_hmap = hmap track,
                   ps_sflag = sflag track, ps_data = d,
                   ps_used = replicate LIBIMD_MAX_SECTORS_PER_TRACK 0, ps_pos = 0 \<rparr>)
         = Some \<lparr> ps_smap = smap track, ps_cmap = cmap track, ps_hmap = hmap track,
                  ps_sflag = sflag track, ps_data = d,
                  ps_used = replicate m 1 @ replicate (LIBIMD_MAX_SECTORS_PER_TRACK - m) 0,
                  ps_pos = m mod n \<rparr>"
  using m
proof (induction m)
  case 0
  then show ?case by simp
next
  case (Suc m)
  then have mn: "m < n" by simp
  have n256: "n < LIBIMD_MAX_SECTORS_PER_TRACK"
    using unsigned_less[of "num_sectors track", where 'a = nat]
    by (simp add: n LIBIMD_MAX_SECTORS_PER_TRACK_def)
  then have m256: "m < LIBIMD_MAX_SECTORS_PER_TRACK" using mn by simp
  let ?used = "replicate m (1::u8) @ replicate (LIBIMD_MAX_SECTORS_PER_TRACK - m) 0"
  have nf: "next_free n ?used n m = Some m"
    by (rule next_free_here) (use mn used_prefix_nth[OF m256] in simp_all)
  have st: "(Suc m) * sector_size track \<le> length d"
  proof -
    have "Suc m * sector_size track \<le> n * sector_size track"
      using mn by (intro mult_le_mono1) simp
    then show ?thesis using room by simp
  qed
  have same: "store_sector d (sector_size track) m (sector_bytes d (sector_size track) m) = d"
    by (rule store_same_sector) (use st in simp)
  have pos: "nat ((int m + 1) mod int n) = Suc m mod n"
    by (metis Suc_eq_plus1 nat_int of_nat_Suc of_nat_mod of_nat_1 of_nat_add)
  have fits: "\<not> int m + 1 > INT_MAX"
    using m256 by (simp add: INT_MAX_def LIBIMD_MAX_SECTORS_PER_TRACK_def)
  have step: "place_step track 1 [0..<n] m
          (Some \<lparr> ps_smap = smap track, ps_cmap = cmap track, ps_hmap = hmap track,
                  ps_sflag = sflag track, ps_data = d, ps_used = ?used, ps_pos = m mod n \<rparr>)
        = Some \<lparr> ps_smap = smap track, ps_cmap = cmap track, ps_hmap = hmap track,
                 ps_sflag = sflag track, ps_data = d,
                 ps_used = replicate (Suc m) 1 @
                           replicate (LIBIMD_MAX_SECTORS_PER_TRACK - Suc m) 0,
                 ps_pos = Suc m mod n \<rparr>"
    using mn nf same pos used_prefix_update[OF m256] d fits
    by (simp add: place_step_def n[symmetric] Let_def)
  show ?case
    using Suc.IH mn step by simp
qed

text \<open>
  C1, as amended. For every loaded track with at least two sectors whose sector IDs
  ascend strictly along the physical positions (and whose arrays and data buffer hold
  its \<open>num_sectors\<close> sectors), \<open>imd_apply_interleave\<close> with factor 1 returns 0 and
  leaves the track as it was: smap, cmap, hmap, sflag and the data buffer are unchanged.
\<close>

theorem interleave_one_ascending_noop:
  assumes ld: "loaded track \<noteq> 0"
    and d: "data track = Some d"
    and two: "2 \<le> unat (num_sectors track)"
    and cap: "unat (num_sectors track) \<le> length (smap track)"
    and room: "unat (num_sectors track) * sector_size track \<le> length d"
    and asc: "sorted_wrt (<) (track_smap track)"
  shows "imd_apply_interleave track 1 = Some (Inr track)"
proof -
  define n where "n = unat (num_sectors track)"
  have guard: "\<not> (loaded track = 0 \<or> data track = None \<or> num_sectors track < 2 \<or> (1::int) < 1)"
    using ld d two by (simp add: word_less_nat_alt)
  have asc': "sorted_wrt (<) (take n (smap track))"
    using asc by (simp add: track_smap_def n_def)
  have len: "length (take n (smap track)) = n" using cap by (simp add: n_def)
  have bs: "bubble_sort n (take n (smap track)) = take n (smap track)"
    by (rule bubble_sort_ascending[OF asc' len])
  have l2p: "logical_to_physical n (smap track) (take n (smap track)) = Some [0..<n]"
    by (rule logical_to_physical_ascending[OF asc']) (use cap in \<open>simp add: n_def\<close>)
  have pl: "fold (place_step track 1 [0..<n]) [0..<n]
           (Some \<lparr> ps_smap = smap track, ps_cmap = cmap track, ps_hmap = hmap track,
                   ps_sflag = sflag track, ps_data = d,
                   ps_used = replicate LIBIMD_MAX_SECTORS_PER_TRACK 0, ps_pos = 0 \<rparr>)
         = Some \<lparr> ps_smap = smap track, ps_cmap = cmap track, ps_hmap = hmap track,
                  ps_sflag = sflag track, ps_data = d,
                  ps_used = replicate n 1 @ replicate (LIBIMD_MAX_SECTORS_PER_TRACK - n) 0,
                  ps_pos = n mod n \<rparr>"
    using place_identity[OF d n_def _ le_refl] room by (simp add: n_def)
  show ?thesis
    unfolding imd_apply_interleave_def
    using guard d by (simp add: Let_def n_def[symmetric] bs l2p pl)
qed

theorem interleave_one_ascending_noop_witness:
  "loaded (example_track_2x128 [1, 2] [0x01, 0x01] (replicate 128 0xAA @ replicate 128 0xBB)) \<noteq> 0 \<and>
   data (example_track_2x128 [1, 2] [0x01, 0x01] (replicate 128 0xAA @ replicate 128 0xBB))
     = Some (replicate 128 0xAA @ replicate 128 0xBB) \<and>
   sorted_wrt (<) (track_smap
     (example_track_2x128 [1, 2] [0x01, 0x01] (replicate 128 0xAA @ replicate 128 0xBB))) \<and>
   imd_apply_interleave
     (example_track_2x128 [1, 2] [0x01, 0x01] (replicate 128 0xAA @ replicate 128 0xBB)) 1
     = Some (Inr (example_track_2x128 [1, 2] [0x01, 0x01]
                    (replicate 128 0xAA @ replicate 128 0xBB)))"
proof -
  let ?d = "replicate 128 0xAA @ replicate 128 0xBB :: u8 list"
  let ?t = "example_track_2x128 [1, 2] [0x01, 0x01] ?d"
  have ld: "loaded ?t \<noteq> 0" by (simp add: example_track_2x128_def)
  have d: "data ?t = Some ?d" by (simp add: example_track_2x128_def)
  have two: "2 \<le> unat (num_sectors ?t)" by (simp add: example_track_2x128_def)
  have cap: "unat (num_sectors ?t) \<le> length (smap ?t)"
    by (simp add: example_track_2x128_def memcpy_prefix_def)
  have room: "unat (num_sectors ?t) * sector_size ?t \<le> length ?d"
    by (simp add: example_track_2x128_def)
  have asc: "sorted_wrt (<) (track_smap ?t)"
    by (simp add: example_track_2x128_def track_smap_def memcpy_prefix_def)
  show ?thesis
    using ld d asc interleave_one_ascending_noop [OF ld d two cap room asc] by simp
qed

text \<open>
  The claim as stated fails: a track with the IDs 2, 1 comes back from factor 1 with the
  IDs 1, 2 and its two sectors exchanged.
\<close>

theorem interleave_one_counterexample:
  "map_option (map_sum id track_smap)
     (imd_apply_interleave
        (example_track_2x128 [2, 1] [0x01, 0x01] (replicate 128 0xAA @ replicate 128 0xBB)) 1)
     = Some (Inr [1, 2]) \<and>
   track_smap (example_track_2x128 [2, 1] [0x01, 0x01] (replicate 128 0xAA @ replicate 128 0xBB))
     = [2, 1] \<and>
   map_option (map_sum id data)
     (imd_apply_interleave
        (example_track_2x128 [2, 1] [0x01, 0x01] (replicate 128 0xAA @ replicate 128 0xBB)) 1)
     = Some (Inr (Some (replicate 128 0xBB @ replicate 128 0xAA)))"
  by code_simp

section \<open>The best interleave\<close>

text \<open>
  The sort of \<open>imd_calculate_best_interleave\<close> and \<open>imd_apply_interleave\<close> is a bubble
  sort; it returns the sector IDs in ascending order.
\<close>

lemma length_bubble_step [simp]: "length (bubble_step j a) = length a"
  by (simp add: bubble_step_def)

lemma mset_bubble_step:
  "Suc j < length a \<Longrightarrow> mset (bubble_step j a) = mset a"
  by (simp add: bubble_step_def mset_swap)

lemma bubble_step_nth:
  assumes "Suc j < length a"
  shows "bubble_step j a ! j = min (a ! j) (a ! Suc j)"
    and "bubble_step j a ! Suc j = max (a ! j) (a ! Suc j)"
    and "\<And>k. k \<noteq> j \<Longrightarrow> k \<noteq> Suc j \<Longrightarrow> bubble_step j a ! k = a ! k"
  using assms by (auto simp: bubble_step_def min_def max_def)


lemma drop_eq_above:
  assumes "length c = length a" "\<forall>k>m. c ! k = a ! k"
  shows "drop (Suc m) c = drop (Suc m) a"
proof (rule nth_equalityI)
  show "length (drop (Suc m) c) = length (drop (Suc m) a)"
    using assms by simp
next
  fix i assume "i < length (drop (Suc m) c)"
  then have i: "Suc m + i < length a" using assms by simp
  have "c ! (Suc m + i) = a ! (Suc m + i)" using assms(2) by simp
  then show "drop (Suc m) c ! i = drop (Suc m) a ! i"
    using i assms(1) by simp
qed

lemma mset_take_of_above:
  assumes "length c = length a" "\<forall>k>m. c ! k = a ! k" "mset c = mset a"
  shows "mset (take (Suc m) c) = mset (take (Suc m) a)"
proof -
  have d: "drop (Suc m) c = drop (Suc m) a" by (rule drop_eq_above[OF assms(1,2)])
  have "mset c = mset (take (Suc m) c) + mset (drop (Suc m) c)"
    by (metis append_take_drop_id mset_append)
  moreover have "mset a = mset (take (Suc m) a) + mset (drop (Suc m) a)"
    by (metis append_take_drop_id mset_append)
  ultimately have "mset (take (Suc m) c) + mset (drop (Suc m) a)
      = mset (take (Suc m) a) + mset (drop (Suc m) a)"
    using assms(3) d by simp
  then show ?thesis by (simp only: add_right_cancel)
qed


lemma bubble_step_top:
  assumes sm: "Suc m < length b" and top: "\<forall>k\<le>m. b ! k \<le> b ! m"
  shows "\<forall>k\<le>Suc m. bubble_step m b ! k \<le> bubble_step m b ! Suc m"
proof (intro allI impI)
  fix k assume k: "k \<le> Suc m"
  let ?c = "bubble_step m b"
  have mx: "?c ! Suc m = max (b ! m) (b ! Suc m)" by (rule bubble_step_nth(2)[OF sm])
  have mn: "?c ! m = min (b ! m) (b ! Suc m)" by (rule bubble_step_nth(1)[OF sm])
  consider "k = Suc m" | "k = m" | "k < m" using k by linarith
  then show "?c ! k \<le> ?c ! Suc m"
  proof cases
    case 1
    then show ?thesis by simp
  next
    case 2
    have "min (b ! m) (b ! Suc m) \<le> max (b ! m) (b ! Suc m)"
      by (rule order_trans[OF min.cobounded1 max.cobounded1])
    then show ?thesis unfolding 2 mx mn .
  next
    case 3
    have "?c ! k = b ! k" by (rule bubble_step_nth(3)[OF sm]) (use 3 in simp_all)
    moreover have "b ! k \<le> b ! m" using top 3 by simp
    moreover have "b ! m \<le> max (b ! m) (b ! Suc m)" by (rule max.cobounded1)
    ultimately show ?thesis unfolding mx by (simp only: order_trans)
  qed
qed

lemma bubble_step_above:
  assumes sm: "Suc m < length b"
  shows "\<forall>k>Suc m. bubble_step m b ! k = b ! k"
proof (intro allI impI)
  fix k assume k: "Suc m < k"
  show "bubble_step m b ! k = b ! k"
    by (rule bubble_step_nth(3)[OF sm]) (use k in simp_all)
qed


text \<open>One pass of the inner loop over the positions below \<open>m\<close>.\<close>

lemma bubble_pass:
  assumes "m < length a"
  shows "length (fold bubble_step [0..<m] a) = length a \<and>
         mset (fold bubble_step [0..<m] a) = mset a \<and>
         (\<forall>k\<le>m. fold bubble_step [0..<m] a ! k \<le> fold bubble_step [0..<m] a ! m) \<and>
         (\<forall>k>m. fold bubble_step [0..<m] a ! k = a ! k)"
  using assms
proof (induction m)
  case 0
  then show ?case by simp
next
  case (Suc m)
  define b where "b = fold bubble_step [0..<m] a"
  have m: "m < length a" using Suc.prems by simp
  have ih: "length b = length a" "mset b = mset a"
    "\<forall>k\<le>m. b ! k \<le> b ! m" "\<forall>k>m. b ! k = a ! k"
    using Suc.IH[OF m] unfolding b_def by blast+
  have sm: "Suc m < length b" using Suc.prems ih(1) by simp
  have c: "fold bubble_step [0..<Suc m] a = bubble_step m b" unfolding b_def by simp
  have len: "length (bubble_step m b) = length a" using ih(1) by simp
  have ms: "mset (bubble_step m b) = mset a" using mset_bubble_step[OF sm] ih(2) by simp
  have top: "\<forall>k\<le>Suc m. bubble_step m b ! k \<le> bubble_step m b ! Suc m"
    by (rule bubble_step_top[OF sm ih(3)])
  have above: "\<forall>k>Suc m. bubble_step m b ! k = a ! k"
  proof (intro allI impI)
    fix k assume k: "Suc m < k"
    have "bubble_step m b ! k = b ! k" using bubble_step_above[OF sm] k by blast
    also have "\<dots> = a ! k" using ih(4) k by simp
    finally show "bubble_step m b ! k = a ! k" .
  qed
  show ?case unfolding c by (intro conjI len ms top above)
qed


lemma bubble_pass_prefix:
  assumes m: "m < length a" and p: "p \<le> m"
  shows "\<exists>p'\<le>m. fold bubble_step [0..<m] a ! p = a ! p'"
proof -
  define c where "c = fold bubble_step [0..<m] a"
  have bp: "length c = length a" "mset c = mset a" "\<forall>k>m. c ! k = a ! k"
    using bubble_pass[OF m] unfolding c_def by blast+
  have "mset (take (Suc m) c) = mset (take (Suc m) a)"
    by (rule mset_take_of_above[OF bp(1,3,2)])
  then have se: "set (take (Suc m) c) = set (take (Suc m) a)" by (rule mset_eq_setD)
  have "take (Suc m) c ! p \<in> set (take (Suc m) c)"
    by (rule nth_mem) (use p m bp(1) in simp)
  then have "c ! p \<in> set (take (Suc m) a)" using se p by simp
  then obtain i where i: "i < length (take (Suc m) a)" "take (Suc m) a ! i = c ! p"
    unfolding in_set_conv_nth by blast
  have "i \<le> m" using i(1) by simp
  moreover have "c ! p = a ! i" using i by simp
  ultimately show ?thesis unfolding c_def by blast
qed

text \<open>After \<open>k\<close> passes every one of the last \<open>k\<close> positions holds an element that is at
  least as large as everything before it.\<close>

lemma bubble_passes:
  assumes "k \<le> length a - 1"
  shows "length (fold (\<lambda>i. fold bubble_step [0..<length a - i - 1]) [0..<k] a) = length a \<and>
         mset (fold (\<lambda>i. fold bubble_step [0..<length a - i - 1]) [0..<k] a) = mset a \<and>
         (\<forall>p q. p \<le> q \<and> q < length a \<and> length a - k \<le> q \<longrightarrow>
            fold (\<lambda>i. fold bubble_step [0..<length a - i - 1]) [0..<k] a ! p
              \<le> fold (\<lambda>i. fold bubble_step [0..<length a - i - 1]) [0..<k] a ! q)"
  using assms
proof (induction k)
  case 0
  then show ?case by auto
next
  case (Suc k)
  define n where "n = length a"
  define b where "b = fold (\<lambda>i. fold bubble_step [0..<length a - i - 1]) [0..<k] a"
  define m where "m = n - k - 1"
  define c where "c = fold bubble_step [0..<m] b"
  have k: "Suc k \<le> n - 1" using Suc.prems unfolding n_def .
  have ih: "length b = n" "mset b = mset a"
    "\<forall>p q. p \<le> q \<and> q < n \<and> n - k \<le> q \<longrightarrow> b ! p \<le> b ! q"
    using Suc.IH Suc.prems unfolding b_def n_def by simp_all
  have mlt: "m < length b" using k ih(1) unfolding m_def by simp
  have nk: "n - k = Suc m" using k unfolding m_def by simp
  have step: "fold (\<lambda>i. fold bubble_step [0..<length a - i - 1]) [0..<Suc k] a = c"
    unfolding c_def b_def m_def n_def by simp
  have bp: "length c = length b" "mset c = mset b" "\<forall>j\<le>m. c ! j \<le> c ! m"
    "\<forall>j>m. c ! j = b ! j"
    using bubble_pass[OF mlt] unfolding c_def by blast+
  have inv: "\<forall>p q. p \<le> q \<and> q < n \<and> n - Suc k \<le> q \<longrightarrow> c ! p \<le> c ! q"
  proof (intro allI impI)
    fix p q assume a: "p \<le> q \<and> q < n \<and> n - Suc k \<le> q"
    then have pq: "p \<le> q" and qn: "q < n" and mq: "m \<le> q" unfolding m_def by simp_all
    show "c ! p \<le> c ! q"
    proof (cases "q = m")
      case True
      then show ?thesis using bp(3) pq by simp
    next
      case False
      then have q: "m < q" using mq by simp
      then have cq: "c ! q = b ! q" using bp(4) by simp
      have nq: "n - k \<le> q" using q nk by simp
      show ?thesis
      proof (cases "p \<le> m")
        case True
        obtain p' where p': "p' \<le> m" "c ! p = b ! p'"
          using bubble_pass_prefix[OF mlt True] unfolding c_def by blast
        have "b ! p' \<le> b ! q" using ih(3) p'(1) q qn nq by simp
        then show ?thesis using p'(2) cq by simp
      next
        case False
        then have "c ! p = b ! p" using bp(4) by simp
        moreover have "b ! p \<le> b ! q" using ih(3) pq qn nq by simp
        ultimately show ?thesis using cq by simp
      qed
    qed
  qed
  have "length c = length a" using bp(1) ih(1) n_def by simp
  moreover have "mset c = mset a" using bp(2) ih(2) by simp
  ultimately show ?case unfolding step using inv unfolding n_def by blast
qed

lemma bubble_sort_sort:
  assumes "length a = n"
  shows "bubble_sort n a = sort a"
proof -
  define c where "c = bubble_sort n a"
  have c: "c = fold (\<lambda>i. fold bubble_step [0..<length a - i - 1]) [0..<length a - 1] a"
    unfolding c_def bubble_sort_def assms ..
  have bp: "length c = length a" "mset c = mset a"
    "\<forall>p q. p \<le> q \<and> q < length a \<and> length a - (length a - 1) \<le> q \<longrightarrow> c ! p \<le> c ! q"
    using bubble_passes[of "length a - 1" a] unfolding c by blast+
  have "sorted c"
    unfolding sorted_iff_nth_mono
  proof (intro allI impI)
    fix i j assume ij: "i \<le> j" "j < length c"
    show "c ! i \<le> c ! j"
    proof (cases "j = 0")
      case True
      then show ?thesis using ij by simp
    next
      case False
      then have "length a - (length a - 1) \<le> j" by simp
      then show ?thesis using bp(3) ij bp(1) by simp
    qed
  qed
  then have "sort a = c" using bp(2) by (intro properties_for_sort) simp_all
  then show ?thesis unfolding c_def by simp
qed


text \<open>The position table: the entry of an ID is the last index that holds it.\<close>

lemma sector_pos_fold:
  assumes "m \<le> length (sm :: u8 list)"
  shows "length (fold (\<lambda>i sector_pos. sector_pos[unat (sm ! i) := word_of_nat i]) [0..<m]
            (replicate 256 (0xFF :: u8))) = 256 \<and>
         fold (\<lambda>i sector_pos. sector_pos[unat (sm ! i) := word_of_nat i]) [0..<m]
            (replicate 256 (0xFF :: u8)) ! unat a =
         (if filter (\<lambda>i. sm ! i = a) [0..<m] = [] then 0xFF
          else word_of_nat (last (filter (\<lambda>i. sm ! i = a) [0..<m])))"
  using assms
proof (induction m)
  case 0
  have "unat a < 256" using unsigned_less[of a, where 'a = nat] by simp
  then show ?case by simp
next
  case (Suc m)
  define p where "p = fold (\<lambda>i sector_pos. sector_pos[unat (sm ! i) := word_of_nat i]) [0..<m]
            (replicate 256 (0xFF :: u8))"
  have ih: "length p = 256"
    "p ! unat a = (if filter (\<lambda>i. sm ! i = a) [0..<m] = [] then 0xFF
          else word_of_nat (last (filter (\<lambda>i. sm ! i = a) [0..<m])))"
    using Suc unfolding p_def by simp_all
  have step: "fold (\<lambda>i sector_pos. sector_pos[unat (sm ! i) := word_of_nat i]) [0..<Suc m]
            (replicate 256 (0xFF :: u8)) = p[unat (sm ! m) := word_of_nat m]"
    unfolding p_def by simp
  have a: "unat a < 256" using unsigned_less[of a, where 'a = nat] by simp
  show ?case
  proof (cases "sm ! m = a")
    case True
    then show ?thesis unfolding step using ih(1) a by simp
  next
    case False
    then have "unat (sm ! m) \<noteq> unat a" by (simp add: word_unat_eq_iff)
    then show ?thesis unfolding step using ih False by simp
  qed
qed

lemma sector_pos_entry:
  assumes n: "n \<le> length sm" and a: "a \<in> set (take n sm)"
  shows "build_sector_pos sm n ! unat a = word_of_nat (last_position (take n sm) a)"
    and "last_position (take n sm) a < n"
proof -
  define f where "f = filter (\<lambda>i. sm ! i = a) [0..<n]"
  have len: "length (take n sm) = n" using n by simp
  have feq: "filter (\<lambda>i. take n sm ! i = a) [0..<length (take n sm)] = f"
    unfolding len f_def by (rule filter_cong) simp_all
  obtain i where i: "i < n" "sm ! i = a"
    using a len unfolding in_set_conv_nth by auto
  then have "i \<in> set f" unfolding f_def by simp
  then have ne: "f \<noteq> []" by auto
  have lp: "last_position (take n sm) a = last f" unfolding last_position_def feq ..
  have "last f \<in> set f" using ne by simp
  then show "last_position (take n sm) a < n" unfolding lp f_def by simp
  show "build_sector_pos sm n ! unat a = word_of_nat (last_position (take n sm) a)"
    unfolding build_sector_pos_def LIBIMD_MAX_SECTORS_PER_TRACK_def LIBIMD_INVALID_SECTOR_POS_def lp
    using sector_pos_fold[OF n, of a] ne unfolding f_def by simp
qed


lemma unat_byte_of_nat:
  "p < 256 \<Longrightarrow> unat (word_of_nat p :: u8) = p"
  by (simp add: unat_of_nat)

lemma unat_byte_increment:
  "unat (x :: u8) < 255 \<Longrightarrow> unat (x + 1) = unat x + 1"
  by (simp add: unat_word_ariths)

lemma forward_distance_cases:
  assumes "p < n" "q < n"
  shows "int (forward_distance n p q) = (if p \<le> q then int q - int p else int n - (int p - int q))"
    and "forward_distance n p q < n"
proof -
  have fd: "forward_distance n p q = (if p \<le> q then q - p else n - (p - q))"
  proof (cases "p \<le> q")
    case True
    then have "q + n - p = (q - p) + n" by simp
    then have "forward_distance n p q = (q - p) mod n" unfolding forward_distance_def by simp
    then show ?thesis using True assms by simp
  next
    case False
    then have "q + n - p = n - (p - q)" using assms by simp
    moreover have "n - (p - q) < n" using False assms by simp
    ultimately show ?thesis using False unfolding forward_distance_def by simp
  qed
  show "forward_distance n p q < n" unfolding fd using assms by (cases "p \<le> q") auto
  show "int (forward_distance n p q) = (if p \<le> q then int q - int p else int n - (int p - int q))"
    unfolding fd using assms by (simp add: of_nat_diff)
qed

text \<open>One iteration of the tally loop, in terms of the description's distances.\<close>

lemma tally_step_distance:
  assumes n: "n \<le> length sm" "n \<le> 255" and i: "i < n"
  shows "tally_step (sort (take n sm)) (build_sector_pos sm n) n i counts =
           (if 0 < pair_distance (take n sm) i
            then counts[pair_distance (take n sm) i := counts ! pair_distance (take n sm) i + 1]
            else counts)"
    and "pair_distance (take n sm) i < n"
proof -
  define ids where "ids = take n sm"
  define s where "s = sort ids"
  define j where "j = (i + 1) mod n"
  define p where "p = last_position ids (s ! i)"
  define q where "q = last_position ids (s ! j)"
  have len: "length ids = n" "length s = n" using n unfolding ids_def s_def by simp_all
  have j: "j < n" using i unfolding j_def by simp
  have "s ! i \<in> set s" "s ! j \<in> set s" using i j len by simp_all
  then have mem: "s ! i \<in> set (take n sm)" "s ! j \<in> set (take n sm)"
    unfolding s_def ids_def by simp_all
  have pq: "p < n" "q < n"
    using sector_pos_entry(2)[OF n(1) mem(1)] sector_pos_entry(2)[OF n(1) mem(2)]
    unfolding p_def q_def ids_def by simp_all
  have cp: "build_sector_pos sm n ! unat (s ! i) = word_of_nat p"
    using sector_pos_entry(1)[OF n(1) mem(1)] unfolding p_def ids_def .
  have np: "build_sector_pos sm n ! unat (s ! j) = word_of_nat q"
    using sector_pos_entry(1)[OF n(1) mem(2)] unfolding q_def ids_def .
  have up: "unat (word_of_nat p :: u8) = p" "unat (word_of_nat q :: u8) = q"
    using pq n(2) by (simp_all add: unat_byte_of_nat)
  have ne: "(word_of_nat p :: u8) \<noteq> 0xFF" "(word_of_nat q :: u8) \<noteq> 0xFF"
  proof -
    have "unat (word_of_nat p :: u8) \<noteq> unat (0xFF :: u8)" using up(1) pq n(2) by simp
    then show "(word_of_nat p :: u8) \<noteq> 0xFF" by (metis)
    have "unat (word_of_nat q :: u8) \<noteq> unat (0xFF :: u8)" using up(2) pq n(2) by simp
    then show "(word_of_nat q :: u8) \<noteq> 0xFF" by (metis)
  qed
  have le: "((word_of_nat p :: u8) \<le> word_of_nat q) = (p \<le> q)"
    unfolding word_le_nat_alt up ..
  have ui: "uint (word_of_nat p :: u8) = int p" "uint (word_of_nat q :: u8) = int q"
    using up by (simp_all add: uint_nat)
  have pd: "pair_distance (take n sm) i = forward_distance n p q"
    unfolding pair_distance_def p_def q_def s_def j_def ids_def using n(1) by simp
  have fd: "int (forward_distance n p q) = (if p \<le> q then int q - int p else int n - (int p - int q))"
    "forward_distance n p q < n"
    using forward_distance_cases[OF pq] by simp_all
  show "pair_distance (take n sm) i < n" unfolding pd by (rule fd(2))
  define dist where "dist = forward_distance n p q"
  have ts: "tally_step s (build_sector_pos sm n) n i counts =
      (if 0 < int dist \<and> int dist < int n then counts[nat (int dist) := counts ! nat (int dist) + 1] else counts)"
    unfolding tally_step_def Let_def j_def[symmetric] cp np LIBIMD_INVALID_SECTOR_POS_def
    using ne le ui fd(1) unfolding dist_def by auto
  show "tally_step (sort (take n sm)) (build_sector_pos sm n) n i counts =
           (if 0 < pair_distance (take n sm) i
            then counts[pair_distance (take n sm) i := counts ! pair_distance (take n sm) i + 1]
            else counts)"
    unfolding pd dist_def[symmetric] using ts fd(2) unfolding s_def ids_def dist_def by simp
qed


text \<open>The tally loop: after \<open>k\<close> iterations the counter of a distance holds the number of
  pairs among the first \<open>k\<close> at that distance; no counter wraps, because there are at
  most 255 pairs.\<close>

lemma tally_fold:
  assumes n: "n \<le> length sm" "n \<le> 255" and k: "k \<le> n"
  shows "length (fold (tally_step (sort (take n sm)) (build_sector_pos sm n) n) [0..<k]
            (replicate 256 0)) = 256 \<and>
         (\<forall>d<256. unat (fold (tally_step (sort (take n sm)) (build_sector_pos sm n) n) [0..<k]
            (replicate 256 0) ! d) =
            (if 0 < d then length (filter (\<lambda>i. pair_distance (take n sm) i = d) [0..<k])
             else 0))"
  using k
proof (induction k)
  case 0
  then show ?case by simp
next
  case (Suc k)
  define c where "c = fold (tally_step (sort (take n sm)) (build_sector_pos sm n) n) [0..<k]
            (replicate 256 0)"
  define pd where "pd = pair_distance (take n sm) k"
  define cnt where "cnt = (\<lambda>m d. length (filter (\<lambda>i. pair_distance (take n sm) i = d) [0..<m]))"
  have kn: "k < n" using Suc.prems by simp
  have ih: "length c = 256" "\<forall>d<256. unat (c ! d) = (if 0 < d then cnt k d else 0)"
    using Suc.IH kn unfolding c_def cnt_def by simp_all
  have ts: "tally_step (sort (take n sm)) (build_sector_pos sm n) n k c =
      (if 0 < pd then c[pd := c ! pd + 1] else c)" and pdn: "pd < n"
    using tally_step_distance[OF n kn] unfolding pd_def by simp_all
  have step: "fold (tally_step (sort (take n sm)) (build_sector_pos sm n) n) [0..<Suc k]
            (replicate 256 0) = (if 0 < pd then c[pd := c ! pd + 1] else c)"
    unfolding c_def[symmetric] using ts by (simp add: c_def)
  have cs: "\<And>d. cnt (Suc k) d = cnt k d + (if pd = d then 1 else 0)"
    unfolding cnt_def pd_def by simp
  have bound: "\<And>d. cnt k d \<le> k"
  proof -
    fix d
    have "cnt k d \<le> length [0..<k]" unfolding cnt_def by (rule length_filter_le)
    then show "cnt k d \<le> k" by simp
  qed
  have len: "length (if 0 < pd then c[pd := c ! pd + 1] else c) = 256" using ih(1) by simp
  have ent: "\<forall>d<256. unat ((if 0 < pd then c[pd := c ! pd + 1] else c) ! d) =
      (if 0 < d then cnt (Suc k) d else 0)"
  proof (intro allI impI)
    fix d :: nat assume d: "d < 256"
    have old: "unat (c ! d) = (if 0 < d then cnt k d else 0)" using ih(2) d by simp
    show "unat ((if 0 < pd then c[pd := c ! pd + 1] else c) ! d) =
      (if 0 < d then cnt (Suc k) d else 0)"
    proof (cases "0 < pd \<and> pd = d")
      case True
      then have "unat (c ! d) = cnt k d" using old by simp
      moreover have "cnt k d < 255" using bound[of d] kn n(2) by simp
      ultimately have "unat (c ! d + 1) = cnt k d + 1" by (simp add: unat_byte_increment)
      then show ?thesis using True d ih(1) cs[of d] by simp
    next
      case False
      then have "(if 0 < pd then c[pd := c ! pd + 1] else c) ! d = c ! d" by auto
      moreover have "0 < d \<longrightarrow> cnt (Suc k) d = cnt k d" using False cs[of d] by auto
      ultimately show ?thesis using old by simp
    qed
  qed
  show ?case unfolding step cnt_def[symmetric] using len ent unfolding cnt_def by blast
qed

lemma interleave_tally_distance:
  assumes n: "n \<le> length sm" "n \<le> 255" and d: "1 \<le> d" "d < 256"
  shows "uint (interleave_tally sm n ! d) = int (distance_tally (take n sm) d)"
proof -
  have len: "length (take n sm) = n" using n by simp
  have bs: "bubble_sort n (take n sm) = sort (take n sm)" by (rule bubble_sort_sort[OF len])
  have "unat (interleave_tally sm n ! d) =
      length (filter (\<lambda>i. pair_distance (take n sm) i = d) [0..<n])"
    unfolding interleave_tally_def bs LIBIMD_MAX_SECTORS_PER_TRACK_def
    using tally_fold[OF n order_refl] d by simp
  then have "unat (interleave_tally sm n ! d) = distance_tally (take n sm) d"
    unfolding distance_tally_def len .
  then show ?thesis by (simp add: uint_nat)
qed

text \<open>The selection loop keeps the first maximum.\<close>

lemma best_fold:
  assumes "2 \<le> k"
  shows "1 \<le> snd (fold (best_step counts) [1..<k] (0, 1)) \<and>
         snd (fold (best_step counts) [1..<k] (0, 1)) < int k \<and>
         fst (fold (best_step counts) [1..<k] (0, 1)) =
           uint (counts ! nat (snd (fold (best_step counts) [1..<k] (0, 1)))) \<and>
         (\<forall>d. 1 \<le> d \<and> d < k \<longrightarrow>
            uint (counts ! d) \<le> fst (fold (best_step counts) [1..<k] (0, 1))) \<and>
         (\<forall>d. 1 \<le> d \<and> d < nat (snd (fold (best_step counts) [1..<k] (0, 1))) \<longrightarrow>
            uint (counts ! d) < fst (fold (best_step counts) [1..<k] (0, 1)))"
  using assms
proof (induction k rule: nat_induct_at_least)
  case base
  have "[1..<2] = [1::nat]" by (simp add: upt_rec)
  then have f: "fold (best_step counts) [1..<2] (0, 1) =
      (if uint (counts ! 1) > 0 then (uint (counts ! 1), 1) else (0, 1))"
    by (simp add: best_step_def)
  have nn: "0 \<le> uint (counts ! 1)" by simp
  show ?case
  proof (cases "uint (counts ! 1) > 0")
    case True
    then show ?thesis unfolding f by (auto simp: le_less Suc_le_eq less_Suc_eq numeral_2_eq_2)
  next
    case False
    then have z: "uint (counts ! 1) = 0" using nn by linarith
    show ?thesis unfolding f using z by (auto simp: le_less Suc_le_eq less_Suc_eq numeral_2_eq_2)
  qed
next
  case (Suc k)
  obtain mx best where st: "fold (best_step counts) [1..<k] (0, 1) = (mx, best)"
    by (cases "fold (best_step counts) [1..<k] (0, 1)")
  have ih: "1 \<le> best" "best < int k" "mx = uint (counts ! nat best)"
    "\<forall>d. 1 \<le> d \<and> d < k \<longrightarrow> uint (counts ! d) \<le> mx"
    "\<forall>d. 1 \<le> d \<and> d < nat best \<longrightarrow> uint (counts ! d) < mx"
    using Suc.IH unfolding st fst_conv snd_conv by blast+
  have k1: "1 \<le> k" using Suc.hyps by simp
  have up: "[1..<Suc k] = [1..<k] @ [k]" using k1 by simp
  have f: "fold (best_step counts) [1..<Suc k] (0, 1) =
      (if uint (counts ! k) > mx then (uint (counts ! k), int k) else (mx, best))"
    unfolding up using st by (simp add: best_step_def)
  show ?case
  proof (cases "uint (counts ! k) > mx")
    case True
    have a: "\<forall>d. 1 \<le> d \<and> d < Suc k \<longrightarrow> uint (counts ! d) \<le> uint (counts ! k)"
    proof (intro allI impI)
      fix d assume d: "1 \<le> d \<and> d < Suc k"
      show "uint (counts ! d) \<le> uint (counts ! k)"
      proof (cases "d = k")
        case True
        then show ?thesis by simp
      next
        case False
        then have "uint (counts ! d) \<le> mx" using ih(4) d by simp
        then show ?thesis using True by simp
      qed
    qed
    have b: "\<forall>d. 1 \<le> d \<and> d < k \<longrightarrow> uint (counts ! d) < uint (counts ! k)"
    proof (intro allI impI)
      fix d assume d: "1 \<le> d \<and> d < k"
      then have "uint (counts ! d) \<le> mx" using ih(4) by simp
      then show "uint (counts ! d) < uint (counts ! k)" using True by simp
    qed
    show ?thesis unfolding f using True k1 a b by simp
  next
    case False
    have a: "\<forall>d. 1 \<le> d \<and> d < Suc k \<longrightarrow> uint (counts ! d) \<le> mx"
    proof (intro allI impI)
      fix d assume d: "1 \<le> d \<and> d < Suc k"
      show "uint (counts ! d) \<le> mx"
      proof (cases "d = k")
        case True
        then show ?thesis using False by simp
      next
        case False
        then show ?thesis using ih(4) d by simp
      qed
    qed
    show ?thesis unfolding f using False ih(1,2,3,5) a by simp
  qed
qed


lemma best_interleave_general:
  assumes n2: "2 \<le> num_sectors track" and len: "unat (num_sectors track) \<le> length (smap track)"
  shows "1 \<le> imd_calculate_best_interleave track \<and>
         imd_calculate_best_interleave track < uint (num_sectors track) \<and>
         (\<forall>d. 1 \<le> d \<and> d < unat (num_sectors track) \<longrightarrow>
            distance_tally (track_smap track) d
              \<le> distance_tally (track_smap track) (nat (imd_calculate_best_interleave track))) \<and>
         (\<forall>d. 1 \<le> d \<and> d < nat (imd_calculate_best_interleave track) \<longrightarrow>
            distance_tally (track_smap track) d
              < distance_tally (track_smap track) (nat (imd_calculate_best_interleave track)))"
proof -
  define n where "n = unat (num_sectors track)"
  define counts where "counts = interleave_tally (smap track) n"
  define r where "r = snd (fold (best_step counts) [1..<n] (0, 1))"
  define mx where "mx = fst (fold (best_step counts) [1..<n] (0, 1))"
  have n255: "n \<le> 255"
    using unsigned_less[of "num_sectors track", where 'a = nat] unfolding n_def by simp
  have n2': "2 \<le> n" using n2 unfolding n_def word_le_nat_alt by simp
  have nlen: "n \<le> length (smap track)" using len unfolding n_def .
  have res: "imd_calculate_best_interleave track = r"
    unfolding imd_calculate_best_interleave_def r_def counts_def n_def Let_def
    using n2 by (simp add: not_less)
  have bf: "1 \<le> r" "r < int n" "mx = uint (counts ! nat r)"
    "\<forall>d. 1 \<le> d \<and> d < n \<longrightarrow> uint (counts ! d) \<le> mx"
    "\<forall>d. 1 \<le> d \<and> d < nat r \<longrightarrow> uint (counts ! d) < mx"
    using best_fold[OF n2', of counts] unfolding r_def mx_def by blast+
  have tl: "\<And>d. 1 \<le> d \<Longrightarrow> d < n \<Longrightarrow>
      uint (counts ! d) = int (distance_tally (track_smap track) d)"
    unfolding counts_def track_smap_def n_def[symmetric]
    by (rule interleave_tally_distance[OF nlen n255]) (use n255 in simp_all)
  have rn: "1 \<le> nat r" "nat r < n" using bf(1,2) by simp_all
  have mxr: "mx = int (distance_tally (track_smap track) (nat r))"
    using tl[OF rn] bf(3) by simp
  have a: "\<forall>d. 1 \<le> d \<and> d < n \<longrightarrow>
      distance_tally (track_smap track) d \<le> distance_tally (track_smap track) (nat r)"
  proof (intro allI impI)
    fix d assume d: "1 \<le> d \<and> d < n"
    then have "uint (counts ! d) \<le> mx" using bf(4) by blast
    then show "distance_tally (track_smap track) d \<le> distance_tally (track_smap track) (nat r)"
      using tl[of d] d mxr by simp
  qed
  have b: "\<forall>d. 1 \<le> d \<and> d < nat r \<longrightarrow>
      distance_tally (track_smap track) d < distance_tally (track_smap track) (nat r)"
  proof (intro allI impI)
    fix d assume d: "1 \<le> d \<and> d < nat r"
    then have "uint (counts ! d) < mx" using bf(5) by blast
    moreover have "d < n" using d rn(2) by simp
    ultimately show "distance_tally (track_smap track) d < distance_tally (track_smap track) (nat r)"
      using tl[of d] d mxr by simp
  qed
  have ub: "r < uint (num_sectors track)" using bf(2) unfolding n_def by (simp only: uint_nat)
  show ?thesis unfolding res n_def[symmetric] using bf(1) ub a b by blast
qed

lemma best_interleave_few_sectors:
  "num_sectors track < 2 \<Longrightarrow> imd_calculate_best_interleave track = 1"
  by (simp add: imd_calculate_best_interleave_def)

lemma best_interleave_example_two:
  "imd_calculate_best_interleave (example_track_8 [1, 5, 2, 6, 3, 7, 4, 8]) = 2"
  by code_simp

lemma best_interleave_example_one:
  "imd_calculate_best_interleave (example_track_8 [1, 2, 3, 4, 5, 6, 7, 8]) = 1"
  by code_simp

text \<open>
  C8. \<open>imd_calculate_best_interleave\<close> returns 1 for a track with fewer than two sectors.
  Otherwise it returns a distance between 1 and \<open>n - 1\<close> with the highest tally, where the
  tally of a distance counts the pairs of consecutive logical IDs in ascending order, the
  last wrapping to the first, whose positions in the sector map lie that far apart
  (forward, modulo \<open>n\<close>); among the distances with the highest tally it returns the
  smallest. It returns 2 for the map 1, 5, 2, 6, 3, 7, 4, 8 and 1 for the map 1 to 8.
\<close>

theorem best_interleave_most_frequent_distance:
  "(num_sectors track < 2 \<longrightarrow> imd_calculate_best_interleave track = 1) \<and>
   (2 \<le> num_sectors track \<and> unat (num_sectors track) \<le> length (smap track) \<longrightarrow>
      1 \<le> imd_calculate_best_interleave track \<and>
      imd_calculate_best_interleave track < uint (num_sectors track) \<and>
      (\<forall>d. 1 \<le> d \<and> d < unat (num_sectors track) \<longrightarrow>
         distance_tally (track_smap track) d
           \<le> distance_tally (track_smap track) (nat (imd_calculate_best_interleave track))) \<and>
      (\<forall>d. 1 \<le> d \<and> d < nat (imd_calculate_best_interleave track) \<longrightarrow>
         distance_tally (track_smap track) d
           < distance_tally (track_smap track) (nat (imd_calculate_best_interleave track)))) \<and>
   imd_calculate_best_interleave (example_track_8 [1, 5, 2, 6, 3, 7, 4, 8]) = 2 \<and>
   imd_calculate_best_interleave (example_track_8 [1, 2, 3, 4, 5, 6, 7, 8]) = 1"
  using best_interleave_general[of track] best_interleave_few_sectors[of track]
    best_interleave_example_two best_interleave_example_one
  by blast

theorem best_interleave_most_frequent_distance_witness:
  "2 \<le> num_sectors (example_track_8 [1, 5, 2, 6, 3, 7, 4, 8]) \<and>
   unat (num_sectors (example_track_8 [1, 5, 2, 6, 3, 7, 4, 8]))
     \<le> length (smap (example_track_8 [1, 5, 2, 6, 3, 7, 4, 8])) \<and>
   track_smap (example_track_8 [1, 5, 2, 6, 3, 7, 4, 8]) = [1, 5, 2, 6, 3, 7, 4, 8] \<and>
   imd_calculate_best_interleave (example_track_8 [1, 5, 2, 6, 3, 7, 4, 8]) = 2 \<and>
   distance_tally [1, 5, 2, 6, 3, 7, 4, 8] 3 \<le> distance_tally [1, 5, 2, 6, 3, 7, 4, 8] 2 \<and>
   distance_tally [1, 5, 2, 6, 3, 7, 4, 8] 1 < distance_tally [1, 5, 2, 6, 3, 7, 4, 8] 2 \<and>
   num_sectors zero_track < 2 \<and> imd_calculate_best_interleave zero_track = 1"
proof -
  define t where "t = example_track_8 [1, 5, 2, 6, 3, 7, 4, 8]"
  have ns: "num_sectors t = 8" unfolding t_def by (simp add: example_track_8_def)
  have sm: "track_smap t = [1, 5, 2, 6, 3, 7, 4, 8]"
    unfolding t_def by (simp add: track_smap_def example_track_8_def memcpy_prefix_def)
  have ln: "length (smap t) = 256"
    unfolding t_def by (simp add: example_track_8_def memcpy_prefix_def)
  have h: "2 \<le> num_sectors t \<and> unat (num_sectors t) \<le> length (smap t)"
    unfolding ns ln by simp
  note th = best_interleave_most_frequent_distance[of t]
  have r: "imd_calculate_best_interleave t = 2" using th unfolding t_def by blast
  have g: "(\<forall>d. 1 \<le> d \<and> d < unat (num_sectors t) \<longrightarrow>
         distance_tally (track_smap t) d
           \<le> distance_tally (track_smap t) (nat (imd_calculate_best_interleave t))) \<and>
      (\<forall>d. 1 \<le> d \<and> d < nat (imd_calculate_best_interleave t) \<longrightarrow>
         distance_tally (track_smap t) d
           < distance_tally (track_smap t) (nat (imd_calculate_best_interleave t)))"
    using th h by blast
  have g1: "distance_tally [1, 5, 2, 6, 3, 7, 4, 8] 3 \<le> distance_tally [1, 5, 2, 6, 3, 7, 4, 8] 2"
    using g unfolding sm r ns by simp
  have g2: "distance_tally [1, 5, 2, 6, 3, 7, 4, 8] 1 < distance_tally [1, 5, 2, 6, 3, 7, 4, 8] 2"
    using g unfolding sm r ns by simp
  have z: "num_sectors zero_track < 2" by (simp add: zero_track_def)
  have z1: "imd_calculate_best_interleave zero_track = 1"
    using best_interleave_most_frequent_distance[of zero_track] z by blast
  show ?thesis using h sm r g1 g2 z z1 unfolding t_def by blast
qed

end
